theory Spec2Isabelle
  imports Complex_Main "HOL-Library.Word" "HOL-Library.Sublist"
begin

section \<open>The context of DNS lookups (include/dnscpp/context.h)\<close>

subsection \<open>Values the header passes around\<close>

text \<open>
  The C++ type \<^verbatim>\<open>double\<close> of the two time settings. The setters only compare and copy
  such values, and comparison of doubles is comparison of the reals they denote, with the
  two infinities at the ends and NaN unordered: every comparison with NaN is false.
\<close>

datatype double = Real real | PosInf | NegInf | NaN

text \<open>The operator \<^verbatim>\<open><\<close> of doubles.\<close>

fun dless :: "double \<Rightarrow> double \<Rightarrow> bool" where
  "dless (Real a) (Real b) = (a < b)"
| "dless (Real a) PosInf = True"
| "dless (Real a) NegInf = False"
| "dless (Real a) NaN = False"
| "dless PosInf b = False"
| "dless NegInf (Real b) = True"
| "dless NegInf PosInf = True"
| "dless NegInf NegInf = False"
| "dless NegInf NaN = False"
| "dless NaN b = False"

text \<open>
  \<^verbatim>\<open>std::max(a, b)\<close> of the C++ standard library: \<^verbatim>\<open>(a < b) ? b : a\<close>.
\<close>

definition std_max :: "double \<Rightarrow> double \<Rightarrow> double" where
  "std_max a b = (if dless a b then b else a)"

text \<open>
  The literal \<^verbatim>\<open>0.1\<close>: the double nearest to one tenth, which is
  \<open>3602879701896397 / 2 ^ 55\<close>, slightly above one tenth.
\<close>

definition tenth :: real where
  "tenth = 3602879701896397 / 36028797018963968"

text \<open>A double that denotes a real number not below \<open>r\<close>, or plus infinity.\<close>

fun at_least :: "real \<Rightarrow> double \<Rightarrow> bool" where
  "at_least r (Real a) = (r \<le> a)"
| "at_least r PosInf = True"
| "at_least r NegInf = False"
| "at_least r NaN = False"

text \<open>
  The types \<^verbatim>\<open>Ip\<close>, \<^verbatim>\<open>Bits\<close> and \<^verbatim>\<open>ns_type\<close> are declared in other headers. The
  context stores, copies and forwards their values and never looks inside: an address is
  an IPv4 or an IPv6 address, the bits are a set of flags, a record type is the number of
  the \<^verbatim>\<open>ns_type\<close> enumeration. A callback is identified by a number, and so is the
  object behind a pointer to a \<^verbatim>\<open>Handler\<close>, which is either a handler of the caller or a
  handler of the class \<^verbatim>\<open>SearchLookupHandler\<close> that the header declares forward: the
  handler that a search expansion in progress has bound for its sub-steps. An
  \<^verbatim>\<open>Operation *\<close> is an optional operation number, \<open>None\<close> for the null pointer.
\<close>

datatype ip = Ip4 "32 word" | Ip6 "128 word"

datatype bits = Bits nat

type_synonym ns_type = int

datatype handler = Handler nat | SearchLookupHandler nat

type_synonym callback = nat

type_synonym size_t = "64 word"

type_synonym int32_t = "32 word"

text \<open>
  The pool of sockets of one address family (the members \<^verbatim>\<open>_ipv4\<close> and \<^verbatim>\<open>_ipv6\<close>),
  of which the methods modelled here only set the socket count.
\<close>

record sockets =
  socket_count :: size_t

subsection \<open>The members of the base class that the context reads and writes\<close>

text \<open>
  A member \<^verbatim>\<open>_name\<close> of the base class \<^verbatim>\<open>Core\<close> is the field \<open>m_name\<close>.
\<close>

record core =
  m_nameservers :: "ip list"
  m_searchpaths :: "string list"
  m_ipv4 :: sockets
  m_ipv6 :: sockets
  m_timeout :: double
  m_interval :: double
  m_attempts :: size_t
  m_capacity :: size_t
  m_bits :: bits
  m_rotate :: bool
  m_maxcalls :: size_t
  m_ndots :: "8 word"
  m_buffersize :: int32_t

subsection \<open>The configuration methods written out in the header\<close>

definition clear :: "'a core_scheme \<Rightarrow> 'a core_scheme" where
  "clear c = c\<lparr>m_nameservers := []\<rparr>"

definition nameserver :: "ip \<Rightarrow> 'a core_scheme \<Rightarrow> 'a core_scheme" where
  "nameserver a c = c\<lparr>m_nameservers := m_nameservers c @ [a]\<rparr>"

definition timeout :: "double \<Rightarrow> 'a core_scheme \<Rightarrow> 'a core_scheme" where
  "timeout t c = c\<lparr>m_timeout := std_max t (Real tenth)\<rparr>"

definition interval :: "double \<Rightarrow> 'a core_scheme \<Rightarrow> 'a core_scheme" where
  "interval i c = c\<lparr>m_interval := std_max i (Real tenth)\<rparr>"

definition attempts :: "size_t \<Rightarrow> 'a core_scheme \<Rightarrow> 'a core_scheme" where
  "attempts n c = c\<lparr>m_attempts := n\<rparr>"

definition bits_set :: "bits \<Rightarrow> 'a core_scheme \<Rightarrow> 'a core_scheme" where
  "bits_set b c = c\<lparr>m_bits := b\<rparr>"

definition rotate_set :: "bool \<Rightarrow> 'a core_scheme \<Rightarrow> 'a core_scheme" where
  "rotate_set r c = c\<lparr>m_rotate := r\<rparr>"

definition maxcalls :: "size_t \<Rightarrow> 'a core_scheme \<Rightarrow> 'a core_scheme" where
  "maxcalls v c = c\<lparr>m_maxcalls := v\<rparr>"

definition ndots :: "8 word \<Rightarrow> 'a core_scheme \<Rightarrow> 'a core_scheme" where
  "ndots v c = c\<lparr>m_ndots := v\<rparr>"

text \<open>
  Modelled from the spec: \<^verbatim>\<open>Sockets::sockets(count)\<close>, which \<^verbatim>\<open>Context::sockets\<close>
  calls on both pools and whose definition is not in the header. The socket count is a
  numeric setting that is positive after clamping and bounds the live sockets of a
  family, and the header documents that the method can only be used to increment the
  number of sockets: the argument is clamped to at least one, and stored when it is above
  the count of the pool.
\<close>

definition sockets_count :: "size_t \<Rightarrow> sockets \<Rightarrow> sockets" where
  "sockets_count n p =
     (let m = (if n < 1 then 1 else n)
      in p\<lparr>socket_count := (if socket_count p < m then m else socket_count p)\<rparr>)"

definition sockets :: "size_t \<Rightarrow> 'a core_scheme \<Rightarrow> 'a core_scheme" where
  "sockets n c = c\<lparr>m_ipv4 := sockets_count n (m_ipv4 c), m_ipv6 := sockets_count n (m_ipv6 c)\<rparr>"

text \<open>
  Modelled from the spec: \<^verbatim>\<open>Context::capacity(value)\<close>, declared in the header and
  defined elsewhere. The capacity is the maximal number of operations that run at the
  same time, a numeric setting that is positive after clamping.
\<close>

definition capacity :: "size_t \<Rightarrow> 'a core_scheme \<Rightarrow> 'a core_scheme" where
  "capacity v c = c\<lparr>m_capacity := (if v < 1 then 1 else v)\<rparr>"

text \<open>
  Modelled from the spec: \<^verbatim>\<open>Context::buffersize(value)\<close>, declared in the header and
  defined elsewhere. The buffer size of the sockets is a numeric setting that is positive
  after clamping; its argument is a signed number of 32 bits.
\<close>

definition buffersize :: "int32_t \<Rightarrow> 'a core_scheme \<Rightarrow> 'a core_scheme" where
  "buffersize v c = c\<lparr>m_buffersize := (if sint v < 1 then 1 else v)\<rparr>"

subsection \<open>Sequences of configuration calls\<close>

datatype setting =
    Timeout double
  | Interval double
  | Attempts size_t
  | Maxcalls size_t
  | Ndots "8 word"
  | Flags bits
  | Rotate bool
  | Sockets size_t
  | Capacity size_t
  | Buffersize int32_t

fun apply_setting :: "setting \<Rightarrow> 'a core_scheme \<Rightarrow> 'a core_scheme" where
  "apply_setting (Timeout t) c = timeout t c"
| "apply_setting (Interval i) c = interval i c"
| "apply_setting (Attempts n) c = attempts n c"
| "apply_setting (Maxcalls v) c = maxcalls v c"
| "apply_setting (Ndots v) c = ndots v c"
| "apply_setting (Flags b) c = bits_set b c"
| "apply_setting (Rotate r) c = rotate_set r c"
| "apply_setting (Sockets n) c = sockets n c"
| "apply_setting (Capacity v) c = capacity v c"
| "apply_setting (Buffersize v) c = buffersize v c"

definition configure :: "setting list \<Rightarrow> 'a core_scheme \<Rightarrow> 'a core_scheme" where
  "configure calls c = fold apply_setting calls c"

text \<open>
  The argument of a call, if the call is one of \<^verbatim>\<open>timeout\<close>, of \<^verbatim>\<open>interval\<close>, and so
  on for each numeric setting.
\<close>

fun timeout_arg :: "setting \<Rightarrow> double option" where
  "timeout_arg (Timeout t) = Some t"
| "timeout_arg x = None"

fun interval_arg :: "setting \<Rightarrow> double option" where
  "interval_arg (Interval i) = Some i"
| "interval_arg x = None"

fun attempts_arg :: "setting \<Rightarrow> size_t option" where
  "attempts_arg (Attempts n) = Some n"
| "attempts_arg x = None"

fun maxcalls_arg :: "setting \<Rightarrow> size_t option" where
  "maxcalls_arg (Maxcalls v) = Some v"
| "maxcalls_arg x = None"

fun ndots_arg :: "setting \<Rightarrow> 8 word option" where
  "ndots_arg (Ndots v) = Some v"
| "ndots_arg x = None"

fun sockets_arg :: "setting \<Rightarrow> size_t option" where
  "sockets_arg (Sockets n) = Some n"
| "sockets_arg x = None"

fun capacity_arg :: "setting \<Rightarrow> size_t option" where
  "capacity_arg (Capacity v) = Some v"
| "capacity_arg x = None"

fun buffersize_arg :: "setting \<Rightarrow> int32_t option" where
  "buffersize_arg (Buffersize v) = Some v"
| "buffersize_arg x = None"

text \<open>
  The last value that a sequence of calls has passed to one setter, \<open>None\<close> when the
  setter was not called.
\<close>

fun last_passed :: "(setting \<Rightarrow> 'a option) \<Rightarrow> setting list \<Rightarrow> 'a option" where
  "last_passed f [] = None"
| "last_passed f (x # calls) =
     (case last_passed f calls of
        Some v \<Rightarrow> Some v
      | None \<Rightarrow> f x)"

text \<open>The two time settings are strictly positive.\<close>

definition positive_times :: "'a core_scheme \<Rightarrow> bool" where
  "positive_times c = (dless (Real 0) (m_timeout c) \<and> dless (Real 0) (m_interval c))"

text \<open>
  Every numeric setting is strictly positive: timeout, interval, attempts, capacity,
  maxcalls, ndots, socket count and buffer size.
\<close>

definition positive_settings :: "'a core_scheme \<Rightarrow> bool" where
  "positive_settings c =
     (positive_times c \<and> 0 < m_attempts c \<and> 0 < m_capacity c \<and> 0 < m_maxcalls c
      \<and> 0 < m_ndots c \<and> 0 < socket_count (m_ipv4 c) \<and> 0 < socket_count (m_ipv6 c)
      \<and> 0 < sint (m_buffersize c))"

subsection \<open>The lookups that take the default bits\<close>

text \<open>
  Each of the four lookups that take the bits is declared in the header and defined
  elsewhere, so it is a parameter \<open>q\<close> here: a function of its arguments and of the
  context that returns the operation and the context after the call. The four inline
  overloads pass the member \<^verbatim>\<open>_bits\<close>.
\<close>

definition query_handler ::
  "(string \<Rightarrow> ns_type \<Rightarrow> bits \<Rightarrow> handler \<Rightarrow> 'a core_scheme \<Rightarrow> 'r) \<Rightarrow>
   string \<Rightarrow> ns_type \<Rightarrow> handler \<Rightarrow> 'a core_scheme \<Rightarrow> 'r" where
  "query_handler q domain type h c = q domain type (m_bits c) h c"

definition query_ip_handler ::
  "(ip \<Rightarrow> bits \<Rightarrow> handler \<Rightarrow> 'a core_scheme \<Rightarrow> 'r) \<Rightarrow>
   ip \<Rightarrow> handler \<Rightarrow> 'a core_scheme \<Rightarrow> 'r" where
  "query_ip_handler q a h c = q a (m_bits c) h c"

definition query_callbacks ::
  "(string \<Rightarrow> ns_type \<Rightarrow> bits \<Rightarrow> callback \<Rightarrow> callback \<Rightarrow> 'a core_scheme \<Rightarrow> 'r) \<Rightarrow>
   string \<Rightarrow> ns_type \<Rightarrow> callback \<Rightarrow> callback \<Rightarrow> 'a core_scheme \<Rightarrow> 'r" where
  "query_callbacks q domain type success failure c = q domain type (m_bits c) success failure c"

definition query_ip_callbacks ::
  "(ip \<Rightarrow> bits \<Rightarrow> callback \<Rightarrow> callback \<Rightarrow> 'a core_scheme \<Rightarrow> 'r) \<Rightarrow>
   ip \<Rightarrow> callback \<Rightarrow> callback \<Rightarrow> 'a core_scheme \<Rightarrow> 'r" where
  "query_ip_callbacks q a success failure c = q a (m_bits c) success failure c"

section \<open>The query scheduling and retry engine\<close>

text \<open>
  The header declares the lookups, \<^verbatim>\<open>searchable\<close> and the class \<^verbatim>\<open>Operation\<close>; their
  definitions are in other files. This section models them from the spec: the search
  path resolver (4.1), the operation (4.2) and the scheduler (4.3).
\<close>

subsection \<open>Result Sinks\<close>

text \<open>
  The two outcomes of an operation, and the two shapes of a Result Sink that the header
  declares: a handler object, or a pair of callbacks.
\<close>

datatype outcome = Success | Failure

datatype sink = HandlerObject handler | CallbackPair callback callback

subsection \<open>Search path resolver\<close>

text \<open>
  Modelled from the spec: the count of label separators that decides whether a name is
  qualified enough (the body of \<^verbatim>\<open>Context::searchable\<close> is not in the header). The
  label separators of a name are its dots.
\<close>

definition separators :: "string \<Rightarrow> nat" where
  "separators name = length (filter (\<lambda>c. c = CHR ''.'') name)"

text \<open>
  Modelled from the spec: the test, which \<^verbatim>\<open>Context::searchable\<close> makes on its second
  parameter, whether the Result Sink is a handler already bound for a sub-step of a
  search expansion in progress.
\<close>

fun in_use :: "sink \<Rightarrow> bool" where
  "in_use (HandlerObject (SearchLookupHandler h)) = True"
| "in_use k = False"

text \<open>
  Modelled from the spec: \<^verbatim>\<open>Context::searchable\<close>, declared in the header and defined
  elsewhere. A name is searchable when the search suffixes are tried before the name
  itself: when it has fewer than \<open>ndots\<close> label separators, is not a literal address,
  and is not looked up for a search expansion in progress. Which names are literal
  addresses is decided by the class \<^verbatim>\<open>Ip\<close>, outside the header: the test is the
  parameter \<open>literal\<close>.
\<close>

definition searchable :: "(string \<Rightarrow> bool) \<Rightarrow> nat \<Rightarrow> string \<Rightarrow> sink \<Rightarrow> bool" where
  "searchable literal nd name k = (\<not> literal name \<and> \<not> in_use k \<and> separators name < nd)"

text \<open>
  Modelled from the spec: the candidate names of a forward lookup, a flat list built
  once. For a malformed name the expansion fails; which names are well-formed is decided
  by the wire encoding, outside the engine: the test is the parameter \<open>valid\<close>. A literal
  address is never expanded, and neither is a name looked up for an expansion in
  progress. Any other name with at least \<open>ndots\<close> separators is tried as it is first; a
  name with fewer is tried with every search suffix appended, in the configured order,
  before the bare name.
\<close>

definition candidates ::
  "(string \<Rightarrow> bool) \<Rightarrow> (string \<Rightarrow> bool) \<Rightarrow> nat \<Rightarrow> string list \<Rightarrow> string \<Rightarrow> sink \<Rightarrow>
   string list option" where
  "candidates valid literal nd paths name k =
     (if \<not> valid name then None
      else if literal name \<or> in_use k then Some [name]
      else if searchable literal nd name k
      then Some (map (\<lambda>p. name @ ''.'' @ p) paths @ [name])
      else Some (name # map (\<lambda>p. name @ ''.'' @ p) paths))"

subsection \<open>Operations\<close>

text \<open>Modelled from the spec: the states of an operation (4.2).\<close>

datatype op_state =
  Created | Sending | Waiting | Retrying | Exhausted | Succeeded | NextCandidate
  | Delivering | Done

text \<open>
  Modelled from the spec: the class \<^verbatim>\<open>Operation\<close>, of which the header has only the
  forward declaration. An operation has its candidate names, the index of the current
  candidate, the nameserver it started with and the number of nameservers it has given up
  for the current candidate (together: the current nameserver), the attempts made, the
  record type, the flags, its Result Sink, the socket selected for it, and the settings
  captured when it was created: attempts, timeout, interval, capacity and the socket
  counts of the two pools. \<open>op_sent\<close> records every request sent: the name asked and the
  index of the nameserver; \<open>op_armed\<close> records, for every request sent, the socket it was
  written to, the seconds of the retry timer and the seconds of the attempt deadline.
\<close>

record operation =
  op_id :: nat
  op_candidates :: "string list"
  op_candidate :: nat
  op_first :: nat
  op_tried :: nat
  op_made :: nat
  op_type :: ns_type
  op_bits :: bits
  op_sink :: sink
  op_state :: op_state
  op_attempts :: size_t
  op_timeout :: double
  op_interval :: double
  op_capacity :: size_t
  op_ipv4 :: sockets
  op_ipv6 :: sockets
  op_socket :: nat
  op_sent :: "(string \<times> nat) list"
  op_armed :: "(nat \<times> double \<times> double) list"

text \<open>
  The definitions that follow are the transitions of 4.2, for an operation and \<open>n\<close>
  nameservers. The states \<open>Sending\<close>, \<open>Retrying\<close>, \<open>NextCandidate\<close>, \<open>Succeeded\<close> and
  \<open>Exhausted\<close> are passed through inside one callback of the event loop; between two
  callbacks an operation is \<open>Created\<close> (queued), \<open>Waiting\<close> or \<open>Delivering\<close> (its outcome
  is queued for delivery).
\<close>

text \<open>
  Modelled from the spec: the current nameserver of an operation (the class is not in
  the header). The nameservers are tried in order from the one the operation started with.
\<close>

definition server :: "nat \<Rightarrow> operation \<Rightarrow> nat" where
  "server n w = (op_first w + op_tried w) mod n"

text \<open>
  Modelled from the spec: the transition \<open>Sending \<rightarrow> Waiting\<close> of the class
  \<^verbatim>\<open>Operation\<close>. The setting \<open>attempts\<close> is the maximal number of tries, and a request
  is sent up to \<open>attempts\<close> times in total to one nameserver for one candidate name: while
  tries are left, the request for the current candidate name is written to the socket of
  the operation, the retry timer is armed for the interval and the attempt deadline for
  the timeout that the operation captured, and the attempt counter increments. In either
  case the operation then waits for its timer. The candidate index is always within the
  list.
\<close>

definition transmit :: "nat \<Rightarrow> operation \<Rightarrow> operation" where
  "transmit n w =
     (if op_made w < unat (op_attempts w)
      then w\<lparr>op_state := Waiting, op_made := Suc (op_made w),
             op_sent := op_sent w @ [(op_candidates w ! op_candidate w, server n w)],
             op_armed := op_armed w @ [(op_socket w, op_interval w, op_timeout w)]\<rparr>
      else w\<lparr>op_state := Waiting\<rparr>)"

text \<open>
  Modelled from the spec: the transition \<open>Created \<rightarrow> Sending\<close> of the class
  \<^verbatim>\<open>Operation\<close>. A nameserver and a socket are selected, then the request is sent.
\<close>

definition admit :: "nat \<Rightarrow> nat \<Rightarrow> nat \<Rightarrow> operation \<Rightarrow> operation" where
  "admit n first socket w = transmit n (w\<lparr>op_first := first, op_socket := socket\<rparr>)"

text \<open>
  Modelled from the spec: the state \<open>NextCandidate\<close> of the class \<^verbatim>\<open>Operation\<close>, entered
  when the attempts are exhausted or the transport fails: the next nameserver if one
  remains, with the counter reset; else the next candidate name, from the first
  nameserver again; else \<open>Exhausted\<close>, and a failure is queued for delivery.
\<close>

definition next_candidate :: "nat \<Rightarrow> operation \<Rightarrow> operation \<times> outcome option" where
  "next_candidate n w =
     (if Suc (op_tried w) < n
      then (transmit n (w\<lparr>op_tried := Suc (op_tried w), op_made := 0\<rparr>), None)
      else if Suc (op_candidate w) < length (op_candidates w)
      then (transmit n (w\<lparr>op_candidate := Suc (op_candidate w), op_tried := 0, op_made := 0\<rparr>),
            None)
      else (w\<lparr>op_state := Delivering\<rparr>, Some Failure))"

text \<open>
  Modelled from the spec: the transition \<open>Waiting \<rightarrow> Retrying\<close> of the class
  \<^verbatim>\<open>Operation\<close>: the timer fired before a response arrived. The request is sent
  again, up to \<open>attempts\<close> times; then \<open>Retrying \<rightarrow> NextCandidate\<close>.
\<close>

definition retry :: "nat \<Rightarrow> operation \<Rightarrow> operation \<times> outcome option" where
  "retry n w =
     (if op_made w < unat (op_attempts w) then (transmit n w, None) else next_candidate n w)"

text \<open>
  Modelled from the spec: the transition \<open>Waiting \<rightarrow> Succeeded\<close> of the class
  \<^verbatim>\<open>Operation\<close>: a conclusive response, a positive answer (\<open>Success\<close>) or an
  authoritative negative one (\<open>Failure\<close>), is queued for delivery.
\<close>

definition conclude :: "outcome \<Rightarrow> operation \<Rightarrow> operation \<times> outcome option" where
  "conclude out w = (w\<lparr>op_state := Delivering\<rparr>, Some out)"

text \<open>
  Modelled from the spec: the dispatch of \<^verbatim>\<open>Core\<close> (4.3), which selects the socket of
  an operation from the pool of the family of its nameserver, round-robin: consecutive
  operations take consecutive sockets, among as many as the socket count that the
  operation captured allows.
\<close>

definition dispatch :: "ip \<Rightarrow> operation \<Rightarrow> nat" where
  "dispatch a w =
     op_id w mod max 1 (unat (socket_count (case a of Ip4 x \<Rightarrow> op_ipv4 w | Ip6 x \<Rightarrow> op_ipv6 w)))"

subsection \<open>Scheduler\<close>

text \<open>A completed operation: its handle, its Result Sink and its outcome.\<close>

type_synonym result = "nat \<times> sink \<times> outcome"

text \<open>
  Modelled from the spec: the scheduling state of the class \<^verbatim>\<open>Core\<close>, which the
  header names only as the base class. Next to the settings it has the operations in the
  order of their creation (those still \<open>Created\<close> are the admission queue), the Pending
  Result Queue, the handle of the next operation and the rotation offset. Two more
  fields keep the history: \<open>s_delivered\<close> lists the calls made to Result Sinks, oldest
  first, and \<open>s_cancelled\<close> the operations destroyed by a cancellation.
\<close>

record sched = core +
  s_operations :: "operation list"
  s_pending :: "result list"
  s_delivered :: "result list"
  s_cancelled :: "nat list"
  s_next :: nat
  s_offset :: nat

text \<open>
  Modelled from the spec: the scheduler that the constructor of \<^verbatim>\<open>Core\<close> leaves (its
  body is not in the header), with the settings \<open>c\<close> and no lookup started.
\<close>

definition start :: "core \<Rightarrow> sched" where
  "start c =
     \<lparr>m_nameservers = m_nameservers c, m_searchpaths = m_searchpaths c,
      m_ipv4 = m_ipv4 c, m_ipv6 = m_ipv6 c,
      m_timeout = m_timeout c, m_interval = m_interval c, m_attempts = m_attempts c,
      m_capacity = m_capacity c, m_bits = m_bits c, m_rotate = m_rotate c,
      m_maxcalls = m_maxcalls c, m_ndots = m_ndots c, m_buffersize = m_buffersize c,
      s_operations = [], s_pending = [], s_delivered = [], s_cancelled = [],
      s_next = 0, s_offset = 0\<rparr>"

text \<open>
  Modelled from the spec: the count of running operations that \<^verbatim>\<open>Core\<close> holds against
  the capacity. An operation runs, and holds a slot, from its admission until it is
  \<open>Done\<close>; it is in flight while it is \<open>Sending\<close> or \<open>Waiting\<close>.
\<close>

definition running :: "operation \<Rightarrow> bool" where
  "running w = (op_state w \<noteq> Created \<and> op_state w \<noteq> Done)"

definition in_flight :: "operation \<Rightarrow> bool" where
  "in_flight w = (op_state w = Sending \<or> op_state w = Waiting)"

definition running_count :: "sched \<Rightarrow> nat" where
  "running_count s = length (filter running (s_operations s))"

text \<open>
  Modelled from the spec: the nameserver selection of \<^verbatim>\<open>Core\<close>. An admitted operation
  starts with index 0, or with the rolling offset when \<open>rotate\<close> is enabled.
\<close>

definition first_server :: "sched \<Rightarrow> nat" where
  "first_server s = (if m_rotate s then s_offset s mod length (m_nameservers s) else 0)"

text \<open>
  Modelled from the spec: the constructor of \<^verbatim>\<open>Operation\<close>. The operation that a lookup
  creates has the candidate names of the domain and a snapshot of the settings of the
  moment: attempts, timeout, interval, capacity and the socket counts. Its flags are the
  ones passed to the lookup.
\<close>

definition create :: "string list \<Rightarrow> ns_type \<Rightarrow> bits \<Rightarrow> sink \<Rightarrow> sched \<Rightarrow> operation" where
  "create names type b k s =
     \<lparr>op_id = s_next s, op_candidates = names,
      op_candidate = 0, op_first = 0, op_tried = 0, op_made = 0,
      op_type = type, op_bits = b, op_sink = k, op_state = Created,
      op_attempts = m_attempts s, op_timeout = m_timeout s, op_interval = m_interval s,
      op_capacity = m_capacity s, op_ipv4 = m_ipv4 s, op_ipv6 = m_ipv6 s, op_socket = 0,
      op_sent = [], op_armed = []\<rparr>"

text \<open>
  Modelled from the spec: the admission of one operation by \<^verbatim>\<open>Core\<close>, with the
  nameserver selected by the scheduler and the socket selected by the dispatch.
\<close>

definition admitted :: "sched \<Rightarrow> operation \<Rightarrow> operation" where
  "admitted s w =
     admit (length (m_nameservers s)) (first_server s)
       (dispatch (m_nameservers s ! first_server s) w) w"

text \<open>
  Modelled from the spec: the forward lookup \<^verbatim>\<open>Context::query(domain, type, bits, sink)\<close>,
  declared in the header and defined elsewhere. Which record types are supported is
  decided by the wire encoding, outside the engine: the test is the parameter
  \<open>supported\<close>. Invalid input, for which the expansion of the name fails, an unsupported
  type and an empty Nameserver Set give no operation. Otherwise the operation is
  created; it runs immediately if a slot is free and no older operation waits for one,
  and is queued if the scheduler is at capacity.
\<close>

definition query ::
  "(string \<Rightarrow> bool) \<Rightarrow> (ns_type \<Rightarrow> bool) \<Rightarrow> (string \<Rightarrow> bool) \<Rightarrow>
   string \<Rightarrow> ns_type \<Rightarrow> bits \<Rightarrow> sink \<Rightarrow> sched \<Rightarrow> nat option \<times> sched" where
  "query valid supported literal domain type b k s =
     (case candidates valid literal (unat (m_ndots s)) (m_searchpaths s) domain k of
        None \<Rightarrow> (None, s)
      | Some names \<Rightarrow>
          if \<not> supported type \<or> m_nameservers s = [] then (None, s)
          else
            let w = create names type b k s;
                w' = (if \<not> list_ex (\<lambda>x. op_state x = Created) (s_operations s)
                         \<and> running_count s < unat (m_capacity s)
                      then admitted s w else w)
            in (Some (s_next s),
                s\<lparr>s_operations := s_operations s @ [w'], s_next := Suc (s_next s)\<rparr>))"

text \<open>
  Modelled from the spec: how \<^verbatim>\<open>Core\<close> passes an event to the waiting operation \<open>h\<close>:
  the transition \<open>f\<close> is taken, and the outcome, if it produced one, joins the Pending
  Result Queue. For an operation in another state and for an unknown handle nothing
  happens.
\<close>

definition on_waiting ::
  "nat \<Rightarrow> (operation \<Rightarrow> operation \<times> outcome option) \<Rightarrow> sched \<Rightarrow> sched" where
  "on_waiting h f s =
     (case find (\<lambda>w. op_id w = h) (s_operations s) of
        None \<Rightarrow> s
      | Some w \<Rightarrow>
          if op_state w \<noteq> Waiting then s
          else (case f w of
                  (w', r) \<Rightarrow>
                    s\<lparr>s_operations := map (\<lambda>x. if op_id x = h then w' else x) (s_operations s),
                      s_pending := s_pending s @
                        (case r of None \<Rightarrow> [] | Some out \<Rightarrow> [(h, op_sink w, out)])\<rparr>))"

text \<open>
  Modelled from the spec: the promotion of \<^verbatim>\<open>Core\<close>, in FIFO admission order. With
  \<open>k\<close> operations running, the oldest queued operation is admitted if the capacity it
  captured allows one more, then the next, and so on; the first one that has to wait
  keeps every younger one waiting.
\<close>

fun admit_queue :: "(operation \<Rightarrow> operation) \<Rightarrow> nat \<Rightarrow> operation list \<Rightarrow> operation list" where
  "admit_queue f k [] = []"
| "admit_queue f k (w # ws) =
     (if op_state w = Created
      then (if k < unat (op_capacity w) then f w # admit_queue f (Suc k) ws else w # ws)
      else w # admit_queue f k ws)"

definition promote :: "sched \<Rightarrow> sched" where
  "promote s =
     s\<lparr>s_operations := admit_queue (admitted s) (running_count s) (s_operations s)\<rparr>"

text \<open>
  Modelled from the spec: the destruction of an operation that its caller cancels. The
  operation leaves the scheduler and its Result Sink is not called.
\<close>

definition destroy :: "nat \<Rightarrow> sched \<Rightarrow> sched" where
  "destroy h s =
     s\<lparr>s_operations := filter (\<lambda>x. op_id x \<noteq> h) (s_operations s),
       s_cancelled := s_cancelled s @ [h]\<rparr>"

text \<open>
  Modelled from the spec: the cancellation of an operation. Before \<open>Delivering\<close> the
  operation is destroyed; once delivery has begun the cancellation is a no-op. The
  resources are released immediately: when the operation held a slot, the slot is free
  and the queued operations are served.
\<close>

definition cancel :: "nat \<Rightarrow> sched \<Rightarrow> sched" where
  "cancel h s =
     (case find (\<lambda>w. op_id w = h) (s_operations s) of
        None \<Rightarrow> s
      | Some w \<Rightarrow>
          if op_state w = Delivering then s
          else if op_state w = Created then destroy h s
          else promote (destroy h s))"

text \<open>
  Modelled from the spec: the transition \<open>Delivering \<rightarrow> Done\<close>. After the call to its
  Result Sink the operation is destroyed; with \<open>rotate\<close> the rolling offset advances.
\<close>

definition finish :: "nat \<Rightarrow> sched \<Rightarrow> sched" where
  "finish h s =
     s\<lparr>s_operations := filter (\<lambda>x. op_id x \<noteq> h) (s_operations s),
       s_offset := (if m_rotate s then Suc (s_offset s) else s_offset s)\<rparr>"

text \<open>
  Modelled from the spec: the bounded delivery of \<^verbatim>\<open>Core\<close>. At most \<open>k\<close> results are
  taken from the front of the Pending Result Queue. Each is passed to its Result Sink;
  the operation is \<open>Done\<close> and frees its slot, and the queued operations are served.
\<close>

fun deliver :: "nat \<Rightarrow> sched \<Rightarrow> sched" where
  "deliver 0 s = s"
| "deliver (Suc k) s =
     (case s_pending s of
        [] \<Rightarrow> s
      | r # rest \<Rightarrow>
          deliver k
            (promote (finish (fst r) (s\<lparr>s_pending := rest, s_delivered := s_delivered s @ [r]\<rparr>))))"

text \<open>
  Modelled from the spec: one scheduling pass of \<^verbatim>\<open>Core\<close>, which delivers at most
  \<open>maxcalls\<close> results.
\<close>

definition pass :: "sched \<Rightarrow> sched" where
  "pass s = deliver (unat (m_maxcalls s)) s"

text \<open>
  Modelled from the spec: the callbacks of \<^verbatim>\<open>Core\<close>, by which the event loop and the
  caller act on the scheduler: a lookup, a cancellation, the retry timer of an
  operation, a conclusive response, a response that does not parse (discarded), a
  transport error that is not transient, a scheduling pass, and a change of a setting.
\<close>

datatype event =
    Submit string ns_type bits sink
  | Cancel nat
  | Timer nat
  | Response nat outcome
  | Malformed nat
  | Unreachable nat
  | Pass
  | Configure setting

fun step ::
  "(string \<Rightarrow> bool) \<Rightarrow> (ns_type \<Rightarrow> bool) \<Rightarrow> (string \<Rightarrow> bool) \<Rightarrow> event \<Rightarrow> sched \<Rightarrow> sched" where
  "step valid supported literal (Submit domain type b k) s =
     snd (query valid supported literal domain type b k s)"
| "step valid supported literal (Cancel h) s = cancel h s"
| "step valid supported literal (Timer h) s = on_waiting h (retry (length (m_nameservers s))) s"
| "step valid supported literal (Response h out) s = on_waiting h (conclude out) s"
| "step valid supported literal (Malformed h) s = s"
| "step valid supported literal (Unreachable h) s =
     on_waiting h (next_candidate (length (m_nameservers s))) s"
| "step valid supported literal Pass s = pass s"
| "step valid supported literal (Configure x) s = apply_setting x s"

text \<open>The events of a run are handled one after the other.\<close>

definition run ::
  "(string \<Rightarrow> bool) \<Rightarrow> (ns_type \<Rightarrow> bool) \<Rightarrow> (string \<Rightarrow> bool) \<Rightarrow> event list \<Rightarrow> sched \<Rightarrow> sched" where
  "run valid supported literal evs s = fold (step valid supported literal) evs s"

subsection \<open>Events and observations used in the statements\<close>

text \<open>The events that are lookups.\<close>

fun is_lookup :: "event \<Rightarrow> bool" where
  "is_lookup (Submit domain type b k) = True"
| "is_lookup e = False"

text \<open>The events that set the capacity.\<close>

fun sets_capacity :: "event \<Rightarrow> bool" where
  "sets_capacity (Configure (Capacity v)) = True"
| "sets_capacity e = False"

text \<open>
  The settings of which an operation takes a snapshot when it is created, and the flags,
  which a lookup passes to its operation: capacity, timeout, interval, attempts, socket
  count and flags.
\<close>

fun snapshot :: "setting \<Rightarrow> bool" where
  "snapshot (Capacity v) = True"
| "snapshot (Timeout t) = True"
| "snapshot (Interval i) = True"
| "snapshot (Attempts n) = True"
| "snapshot (Sockets n) = True"
| "snapshot (Flags b) = True"
| "snapshot x = False"

text \<open>
  What the scheduler holds next to its settings: the operations, the two queues, the
  history, the next handle and the rotation offset.
\<close>

definition engine ::
  "sched \<Rightarrow> operation list \<times> result list \<times> result list \<times> nat list \<times> nat \<times> nat" where
  "engine s =
     (s_operations s, s_pending s, s_delivered s, s_cancelled s, s_next s, s_offset s)"

text \<open>The parameters that an operation captured when it was created.\<close>

definition parameters ::
  "operation \<Rightarrow> size_t \<times> double \<times> double \<times> size_t \<times> sockets \<times> sockets \<times> bits" where
  "parameters w =
     (op_attempts w, op_timeout w, op_interval w, op_capacity w, op_ipv4 w, op_ipv6 w, op_bits w)"

text \<open>The calls made to the Result Sink of the operation \<open>h\<close>.\<close>

definition deliveries :: "nat \<Rightarrow> sched \<Rightarrow> result list" where
  "deliveries h s = filter (\<lambda>r. fst r = h) (s_delivered s)"

text \<open>The operation \<open>h\<close> waits in the admission queue.\<close>

definition queued :: "nat \<Rightarrow> sched \<Rightarrow> bool" where
  "queued h s = (\<exists>w\<in>set (s_operations s). op_id w = h \<and> op_state w = Created)"

text \<open>
  The largest capacity that was configured at some moment of a run from the settings
  \<open>c\<close>.
\<close>

definition highest_capacity ::
  "(string \<Rightarrow> bool) \<Rightarrow> (ns_type \<Rightarrow> bool) \<Rightarrow> (string \<Rightarrow> bool) \<Rightarrow> core \<Rightarrow> event list \<Rightarrow> size_t" where
  "highest_capacity valid supported literal c evs =
     fold max
       (map (\<lambda>i. m_capacity (run valid supported literal (take i evs) (start c)))
          [0..<Suc (length evs)]) 0"

text \<open>
  What an operation with \<open>n\<close> nameservers has left before it is exhausted: the pairs of
  a candidate name and a nameserver not yet given up, each with its tries, and the tries
  left for the current pair.
\<close>

definition budget :: "nat \<Rightarrow> operation \<Rightarrow> nat" where
  "budget n w =
     (length (op_candidates w) * n - (op_candidate w * n + op_tried w))
       * Suc (unat (op_attempts w))
     + (unat (op_attempts w) - op_made w)"

text \<open>
  The rounds that an operation can take before it is gone, when in every round its timer
  fires and a pass delivers at least one result: one round to be delivered, and before
  that two more than its budget.
\<close>

definition cost :: "nat \<Rightarrow> operation \<Rightarrow> nat" where
  "cost n w = (if op_state w = Delivering then 1 else budget n w + 2)"

definition effort :: "sched \<Rightarrow> nat" where
  "effort s = sum_list (map (cost (length (m_nameservers s))) (s_operations s))"

text \<open>
  One round of the event loop: the retry timer of every operation fires, then a
  scheduling pass runs. The event loop drains the scheduler by as many rounds as its
  operations can take.
\<close>

definition round_events :: "sched \<Rightarrow> event list" where
  "round_events s = map Timer [0..<s_next s] @ [Pass]"

definition drain :: "sched \<Rightarrow> event list" where
  "drain s = concat (replicate (effort s) (round_events s))"

subsection \<open>Invariants of the scheduler\<close>

text \<open>
  The requests an operation has sent, counted against its position: with \<open>n\<close>
  nameservers, each pair of a candidate name and a nameserver that the operation has
  left behind has cost it at most \<open>attempts\<close> requests, and the current pair
  \<open>op_made\<close> requests so far.
\<close>

definition op_ok :: "nat \<Rightarrow> operation \<Rightarrow> bool" where
  "op_ok n w =
     (0 < n \<and> op_candidate w < length (op_candidates w) \<and>
      (op_state w = Created \<and> op_sent w = [] \<and> op_made w = 0 \<and> op_tried w = 0
         \<and> op_candidate w = 0
       \<or> op_state w = Waiting \<and> op_tried w < n
         \<and> op_made w \<le> unat (op_attempts w)
         \<and> length (op_sent w)
             \<le> (op_candidate w * n + op_tried w) * unat (op_attempts w) + op_made w
       \<or> op_state w = Delivering
         \<and> length (op_sent w)
             \<le> unat (op_attempts w) * n * length (op_candidates w)))"

definition ops_ok :: "sched \<Rightarrow> bool" where
  "ops_ok s = list_all (op_ok (length (m_nameservers s))) (s_operations s)"

text \<open>
  The handles of the operations are in the order of creation and below the next handle.
\<close>

definition wf_ids :: "sched \<Rightarrow> bool" where
  "wf_ids s =
     (sorted_wrt (<) (map op_id (s_operations s))
      \<and> (\<forall>w\<in>set (s_operations s). op_id w < s_next s))"

text \<open>
  The Pending Result Queue has one entry for each operation that is \<open>Delivering\<close>, and
  no other.
\<close>

definition wf_pending :: "sched \<Rightarrow> bool" where
  "wf_pending s =
     (distinct (map fst (s_pending s))
      \<and> fst ` set (s_pending s)
          = op_id ` {w \<in> set (s_operations s). op_state w = Delivering})"

text \<open>
  Every handle given out belongs to a live operation, to a cancelled one or to one whose
  result was delivered, and to one of the three only; no result was delivered twice.
\<close>

definition wf_history :: "sched \<Rightarrow> bool" where
  "wf_history s =
     (distinct (map fst (s_delivered s))
      \<and> op_id ` set (s_operations s) \<inter> fst ` set (s_delivered s) = {}
      \<and> op_id ` set (s_operations s) \<inter> set (s_cancelled s) = {}
      \<and> fst ` set (s_delivered s) \<inter> set (s_cancelled s) = {}
      \<and> op_id ` set (s_operations s) \<union> fst ` set (s_delivered s) \<union> set (s_cancelled s)
          = {..<s_next s})"

definition invariant :: "sched \<Rightarrow> bool" where
  "invariant s = (wf_ids s \<and> ops_ok s \<and> wf_pending s \<and> wf_history s)"

text \<open>
  The operation \<open>h\<close> and every result recorded for it carry the Result Sink \<open>k\<close>.
\<close>

definition sink_kept :: "nat \<Rightarrow> sink \<Rightarrow> sched \<Rightarrow> bool" where
  "sink_kept h k s =
     ((\<forall>w\<in>set (s_operations s). op_id w = h \<longrightarrow> op_sink w = k)
      \<and> (\<forall>r\<in>set (s_pending s). fst r = h \<longrightarrow> fst (snd r) = k)
      \<and> (\<forall>r\<in>set (s_delivered s). fst r = h \<longrightarrow> fst (snd r) = k))"

text \<open>
  No operation that waits for admission stands before one that was admitted: the
  operations still \<open>Created\<close> are the rear of the list.
\<close>

fun queue_behind :: "operation list \<Rightarrow> bool" where
  "queue_behind [] = True"
| "queue_behind (w # ws) =
     (if op_state w = Created then list_all (\<lambda>x. op_state x = Created) ws
      else queue_behind ws)"

text \<open>
  Every running operation is within the capacity it captured: with \<open>k\<close> operations
  running before the list, the running operations up to and including it are no more
  than its capacity.
\<close>

fun slots_ok :: "nat \<Rightarrow> operation list \<Rightarrow> bool" where
  "slots_ok k [] = True"
| "slots_ok k (w # ws) =
     (if running w then Suc k \<le> unat (op_capacity w) \<and> slots_ok (Suc k) ws
      else slots_ok k ws)"

text \<open>While an operation waits for admission, another one runs.\<close>

definition busy_when_queued :: "sched \<Rightarrow> bool" where
  "busy_when_queued s =
     (list_ex (\<lambda>w. op_state w = Created) (s_operations s) \<longrightarrow> 0 < running_count s)"

text \<open>The capacity and the capacity that each operation captured are positive.\<close>

definition positive_capacity :: "sched \<Rightarrow> bool" where
  "positive_capacity s =
     (0 < m_capacity s \<and> list_all (\<lambda>w. 0 < op_capacity w) (s_operations s))"

text \<open>The capacity is \<open>v\<close>, and so is the capacity that each operation captured.\<close>

definition fixed_capacity :: "size_t \<Rightarrow> sched \<Rightarrow> bool" where
  "fixed_capacity v s =
     (m_capacity s = v \<and> list_all (\<lambda>w. op_capacity w = v) (s_operations s))"

text \<open>While an operation waits for admission, every slot is taken.\<close>

definition full_when_queued :: "sched \<Rightarrow> bool" where
  "full_when_queued s =
     (list_ex (\<lambda>w. op_state w = Created) (s_operations s) \<longrightarrow>
        unat (m_capacity s) \<le> running_count s)"

definition admission_ok :: "sched \<Rightarrow> bool" where
  "admission_ok s = (queue_behind (s_operations s) \<and> slots_ok 0 (s_operations s))"

subsection \<open>Examples\<close>

text \<open>A context with positive settings, one nameserver and one search path.\<close>

definition example_core :: core where
  "example_core =
     \<lparr>m_nameservers = [Ip4 134744072], m_searchpaths = [''example.com''],
      m_ipv4 = \<lparr>socket_count = 1\<rparr>, m_ipv6 = \<lparr>socket_count = 1\<rparr>,
      m_timeout = Real 60, m_interval = Real 2, m_attempts = 3, m_capacity = 1,
      m_bits = Bits 0, m_rotate = False, m_maxcalls = 2, m_ndots = 1,
      m_buffersize = 65536\<rparr>"

text \<open>The labels of a name: the parts between its dots.\<close>

fun labels :: "string \<Rightarrow> string list" where
  "labels [] = [[]]"
| "labels (c # cs) =
     (if c = CHR ''.'' then [] # labels cs
      else (case labels cs of [] \<Rightarrow> [[c]] | l # ls \<Rightarrow> (c # l) # ls))"

text \<open>
  Tests used in the examples. A name is well-formed when none of its labels is empty,
  and the supported record types are A (1) and AAAA (28). A name is a literal address
  when it is a dotted quad of up to three decimal digits each, or has a colon and
  otherwise only hexadecimal digits, colons and dots.
\<close>

definition example_valid :: "string \<Rightarrow> bool" where
  "example_valid name = list_all (\<lambda>l. l \<noteq> []) (labels name)"

definition example_supported :: "ns_type \<Rightarrow> bool" where
  "example_supported type = (type = 1 \<or> type = 28)"

definition example_literal :: "string \<Rightarrow> bool" where
  "example_literal name =
     (length (labels name) = 4
        \<and> list_all (\<lambda>l. l \<noteq> [] \<and> length l \<le> 3 \<and> list_all (\<lambda>c. c \<in> set ''0123456789'') l)
            (labels name)
      \<or> CHR '':'' \<in> set name
        \<and> list_all (\<lambda>c. c \<in> set ''0123456789abcdefABCDEF:.'') name)"

text \<open>The example context without a search path, so that a name has one candidate.\<close>

definition example_single :: core where
  "example_single = example_core\<lparr>m_searchpaths := []\<rparr>"

text \<open>The scheduler of the example context after a lookup of \<open>host\<close>.\<close>

definition example_started :: sched where
  "example_started =
     step example_valid example_supported example_literal
       (Submit ''host'' 1 (Bits 0) (HandlerObject (Handler 7))) (start example_core)"


text \<open>
  The scheduler of the example context, whose capacity is one, after two lookups in a
  row.
\<close>

definition example_two :: sched where
  "example_two =
     run example_valid example_supported example_literal
       [Submit ''a.example'' 1 (Bits 0) (HandlerObject (Handler 7)),
        Submit ''b.example'' 1 (Bits 0) (HandlerObject (Handler 8))]
       (start example_core)"

text \<open>A lookup of \<open>host\<close> whose timer then fires \<open>k\<close> times: no request is answered.\<close>

definition unanswered :: "nat \<Rightarrow> event list" where
  "unanswered k =
     Submit ''host'' 1 (Bits 0) (HandlerObject (Handler 7)) # replicate k (Timer 0)"

text \<open>Three lookups in a row.\<close>

definition three_lookups :: "event list" where
  "three_lookups =
     [Submit ''a.example'' 1 (Bits 0) (HandlerObject (Handler 7)),
      Submit ''b.example'' 1 (Bits 0) (HandlerObject (Handler 8)),
      Submit ''c.example'' 1 (Bits 0) (CallbackPair 3 4)]"

section \<open>Properties of the configuration methods\<close>

lemma tenth_ge: "1 / 10 \<le> tenth"
  by (simp add: tenth_def)

lemma std_max_real: "std_max (Real t) (Real r) = Real (max t r)"
  by (simp add: std_max_def max_def)

lemma at_least_std_max: "t \<noteq> NaN \<Longrightarrow> at_least r (std_max t (Real r))"
  by (cases t) (simp_all add: std_max_def)

lemma at_least_positive: "at_least tenth d \<Longrightarrow> dless (Real 0) d"
  by (cases d) (simp_all add: tenth_def)

lemma at_least_tenth: "at_least tenth d \<Longrightarrow> at_least (1 / 10) d"
  using tenth_ge by (cases d) simp_all

text \<open>
  C7: for every real \<open>t\<close>, \<^verbatim>\<open>timeout(t)\<close> stores the larger of \<open>t\<close> and the literal
  \<^verbatim>\<open>0.1\<close>, and \<^verbatim>\<open>interval(i)\<close> stores the larger of \<open>i\<close> and \<^verbatim>\<open>0.1\<close>; the stored
  value is never below one tenth of a second.
\<close>

theorem timeout_interval_clamped:
  "m_timeout (timeout (Real t) c) = Real (max t tenth)
   \<and> m_interval (interval (Real i) c) = Real (max i tenth)
   \<and> at_least (1 / 10) (m_timeout (timeout (Real t) c))
   \<and> at_least (1 / 10) (m_interval (interval (Real i) c))"
  using tenth_ge by (simp add: timeout_def interval_def std_max_real max_def)

lemmas setting_defs = timeout_def interval_def attempts_def maxcalls_def ndots_def
  bits_set_def rotate_set_def sockets_def capacity_def buffersize_def

lemma configure_Nil [simp]: "configure [] c = c"
  by (simp add: configure_def)

lemma configure_Cons [simp]: "configure (x # calls) c = configure calls (apply_setting x c)"
  by (simp add: configure_def)

lemma stored_attempts:
  "m_attempts (apply_setting x c) = (case attempts_arg x of None \<Rightarrow> m_attempts c | Some n \<Rightarrow> n)"
  by (cases x) (simp_all add: setting_defs)

lemma stored_maxcalls:
  "m_maxcalls (apply_setting x c) = (case maxcalls_arg x of None \<Rightarrow> m_maxcalls c | Some n \<Rightarrow> n)"
  by (cases x) (simp_all add: setting_defs)

lemma stored_ndots:
  "m_ndots (apply_setting x c) = (case ndots_arg x of None \<Rightarrow> m_ndots c | Some n \<Rightarrow> n)"
  by (cases x) (simp_all add: setting_defs)

lemma stored_timeout:
  "m_timeout (apply_setting x c)
     = (case timeout_arg x of None \<Rightarrow> m_timeout c | Some t \<Rightarrow> std_max t (Real tenth))"
  by (cases x) (simp_all add: setting_defs)

lemma stored_interval:
  "m_interval (apply_setting x c)
     = (case interval_arg x of None \<Rightarrow> m_interval c | Some t \<Rightarrow> std_max t (Real tenth))"
  by (cases x) (simp_all add: setting_defs)

lemma last_attempts:
  "m_attempts (configure calls c)
     = (case last_passed attempts_arg calls of None \<Rightarrow> m_attempts c | Some n \<Rightarrow> n)"
  by (induction calls arbitrary: c) (simp_all add: stored_attempts split: option.splits)

lemma last_maxcalls:
  "m_maxcalls (configure calls c)
     = (case last_passed maxcalls_arg calls of None \<Rightarrow> m_maxcalls c | Some n \<Rightarrow> n)"
  by (induction calls arbitrary: c) (simp_all add: stored_maxcalls split: option.splits)

lemma last_ndots:
  "m_ndots (configure calls c)
     = (case last_passed ndots_arg calls of None \<Rightarrow> m_ndots c | Some n \<Rightarrow> n)"
  by (induction calls arbitrary: c) (simp_all add: stored_ndots split: option.splits)

lemma last_timeout:
  "m_timeout (configure calls c)
     = (case last_passed timeout_arg calls of
          None \<Rightarrow> m_timeout c
        | Some t \<Rightarrow> std_max t (Real tenth))"
  by (induction calls arbitrary: c) (simp_all add: stored_timeout split: option.splits)

lemma last_interval:
  "m_interval (configure calls c)
     = (case last_passed interval_arg calls of
          None \<Rightarrow> m_interval c
        | Some t \<Rightarrow> std_max t (Real tenth))"
  by (induction calls arbitrary: c) (simp_all add: stored_interval split: option.splits)

lemma clamped_size: "0 < (if v < 1 then 1 else v)" for v :: size_t
  by (simp add: word_less_1 word_greater_zero_iff)

lemma clamped_int32: "0 < sint (if sint v < 1 then 1 else v)" for v :: int32_t
  by simp

lemma capacity_kept:
  "0 < m_capacity c \<or> capacity_arg x \<noteq> None \<Longrightarrow> 0 < m_capacity (apply_setting x c)"
  using clamped_size by (cases x) (auto simp: setting_defs)

lemma buffersize_kept:
  "0 < sint (m_buffersize c) \<or> buffersize_arg x \<noteq> None \<Longrightarrow>
   0 < sint (m_buffersize (apply_setting x c))"
  using clamped_int32 by (cases x) (auto simp: setting_defs)

lemma socket_count_clamped: "0 < socket_count (sockets_count n p)"
  using clamped_size [of n]
  by (auto simp: sockets_count_def Let_def word_greater_zero_iff)

lemma socket_count_kept: "0 < socket_count p \<Longrightarrow> 0 < socket_count (sockets_count n p)"
  by (rule socket_count_clamped)

lemma sockets_kept:
  "0 < socket_count (m_ipv4 c) \<and> 0 < socket_count (m_ipv6 c) \<or> sockets_arg x \<noteq> None \<Longrightarrow>
   0 < socket_count (m_ipv4 (apply_setting x c))
   \<and> 0 < socket_count (m_ipv6 (apply_setting x c))"
  using socket_count_clamped by (cases x) (auto simp: setting_defs)

lemma last_capacity:
  "0 < m_capacity c \<or> last_passed capacity_arg calls \<noteq> None \<Longrightarrow>
   0 < m_capacity (configure calls c)"
proof (induction calls arbitrary: c)
  case Nil
  then show ?case by simp
next
  case (Cons x calls)
  show ?case
  proof (cases "last_passed capacity_arg calls")
    case None
    with Cons.prems have "0 < m_capacity (apply_setting x c)"
      by (intro capacity_kept) auto
    then show ?thesis
      using Cons.IH by simp
  next
    case (Some v)
    then show ?thesis
      using Cons.IH by simp
  qed
qed

lemma last_buffersize:
  "0 < sint (m_buffersize c) \<or> last_passed buffersize_arg calls \<noteq> None \<Longrightarrow>
   0 < sint (m_buffersize (configure calls c))"
proof (induction calls arbitrary: c)
  case Nil
  then show ?case by simp
next
  case (Cons x calls)
  show ?case
  proof (cases "last_passed buffersize_arg calls")
    case None
    with Cons.prems have "0 < sint (m_buffersize (apply_setting x c))"
      by (intro buffersize_kept) auto
    then show ?thesis
      using Cons.IH by simp
  next
    case (Some v)
    then show ?thesis
      using Cons.IH by simp
  qed
qed

lemma last_sockets:
  "0 < socket_count (m_ipv4 c) \<and> 0 < socket_count (m_ipv6 c)
     \<or> last_passed sockets_arg calls \<noteq> None \<Longrightarrow>
   0 < socket_count (m_ipv4 (configure calls c))
   \<and> 0 < socket_count (m_ipv6 (configure calls c))"
proof (induction calls arbitrary: c)
  case Nil
  then show ?case by simp
next
  case (Cons x calls)
  show ?case
  proof (cases "last_passed sockets_arg calls")
    case None
    with Cons.prems have "0 < socket_count (m_ipv4 (apply_setting x c))
        \<and> 0 < socket_count (m_ipv6 (apply_setting x c))"
      by (intro sockets_kept) auto
    then show ?thesis
      using Cons.IH by simp
  next
    case (Some v)
    then show ?thesis
      using Cons.IH by simp
  qed
qed

text \<open>
  C8, as stated, fails: \<^verbatim>\<open>attempts(0)\<close> stores zero. In a context whose settings are all
  positive, the call leaves a setting that is not, and so do \<^verbatim>\<open>maxcalls(0)\<close> and
  \<^verbatim>\<open>ndots(0)\<close>; a timeout that is not a number is stored as it is.
\<close>

theorem attempts_zero_stored:
  "positive_settings example_core \<and> \<not> positive_settings (configure [Attempts 0] example_core)
   \<and> m_attempts (configure [Attempts 0] example_core) = 0
   \<and> m_maxcalls (configure [Maxcalls 0] example_core) = 0
   \<and> m_ndots (configure [Ndots 0] example_core) = 0
   \<and> m_timeout (configure [Timeout NaN] example_core) = NaN
   \<and> \<not> positive_times (configure [Timeout NaN] example_core)"
  by (simp add: positive_settings_def positive_times_def example_core_def configure_def
        attempts_def maxcalls_def ndots_def timeout_def std_max_def)

text \<open>
  C8, amended: after any sequence of setter calls, the timeout and the interval hold the
  last value passed to their setter, clamped, which is at least 0.1 and strictly positive
  when that value is a number; the capacity, the socket count and the buffer size are
  strictly positive once their setter was called; \<^verbatim>\<open>attempts\<close>, \<^verbatim>\<open>maxcalls\<close> and
  \<^verbatim>\<open>ndots\<close> hold exactly the last value passed to their setter, zero included. A setting
  whose setter was not called is as it was.
\<close>

theorem settings_after_calls:
  "m_attempts (configure calls c)
     = (case last_passed attempts_arg calls of None \<Rightarrow> m_attempts c | Some n \<Rightarrow> n)
   \<and> m_maxcalls (configure calls c)
     = (case last_passed maxcalls_arg calls of None \<Rightarrow> m_maxcalls c | Some n \<Rightarrow> n)
   \<and> m_ndots (configure calls c)
     = (case last_passed ndots_arg calls of None \<Rightarrow> m_ndots c | Some n \<Rightarrow> n)
   \<and> m_timeout (configure calls c)
     = (case last_passed timeout_arg calls of
          None \<Rightarrow> m_timeout c
        | Some t \<Rightarrow> std_max t (Real tenth))
   \<and> m_interval (configure calls c)
     = (case last_passed interval_arg calls of
          None \<Rightarrow> m_interval c
        | Some i \<Rightarrow> std_max i (Real tenth))
   \<and> (\<forall>t. last_passed timeout_arg calls = Some t \<and> t \<noteq> NaN \<longrightarrow>
         at_least (1 / 10) (m_timeout (configure calls c))
         \<and> dless (Real 0) (m_timeout (configure calls c)))
   \<and> (\<forall>i. last_passed interval_arg calls = Some i \<and> i \<noteq> NaN \<longrightarrow>
         at_least (1 / 10) (m_interval (configure calls c))
         \<and> dless (Real 0) (m_interval (configure calls c)))
   \<and> (last_passed capacity_arg calls \<noteq> None \<longrightarrow> 0 < m_capacity (configure calls c))
   \<and> (last_passed sockets_arg calls \<noteq> None \<longrightarrow>
         0 < socket_count (m_ipv4 (configure calls c))
         \<and> 0 < socket_count (m_ipv6 (configure calls c)))
   \<and> (last_passed buffersize_arg calls \<noteq> None \<longrightarrow>
         0 < sint (m_buffersize (configure calls c)))"
proof -
  have t: "at_least (1 / 10) (m_timeout (configure calls c))
      \<and> dless (Real 0) (m_timeout (configure calls c))"
    if "last_passed timeout_arg calls = Some t" "t \<noteq> NaN" for t
  proof -
    from that(1) have "m_timeout (configure calls c) = std_max t (Real tenth)"
      by (simp add: last_timeout)
    with that(2) have "at_least tenth (m_timeout (configure calls c))"
      by (simp add: at_least_std_max)
    then show ?thesis
      by (simp add: at_least_tenth at_least_positive)
  qed
  have i: "at_least (1 / 10) (m_interval (configure calls c))
      \<and> dless (Real 0) (m_interval (configure calls c))"
    if "last_passed interval_arg calls = Some i" "i \<noteq> NaN" for i
  proof -
    from that(1) have "m_interval (configure calls c) = std_max i (Real tenth)"
      by (simp add: last_interval)
    with that(2) have "at_least tenth (m_interval (configure calls c))"
      by (simp add: at_least_std_max)
    then show ?thesis
      by (simp add: at_least_tenth at_least_positive)
  qed
  from t i show ?thesis
    using last_attempts [of calls c] last_maxcalls [of calls c] last_ndots [of calls c]
      last_timeout [of calls c] last_interval [of calls c]
      last_capacity [of c calls] last_sockets [of c calls] last_buffersize [of c calls]
    by blast
qed

theorem settings_after_calls_witness:
  "m_attempts (configure [Attempts 5, Timeout (Real 0), Attempts 0, Interval (Real (- 5)),
       Maxcalls 0, Ndots 0, Capacity 0, Sockets 0, Buffersize 0] (clear example_core)) = 0
   \<and> m_maxcalls (configure [Attempts 5, Timeout (Real 0), Attempts 0, Interval (Real (- 5)),
       Maxcalls 0, Ndots 0, Capacity 0, Sockets 0, Buffersize 0] (clear example_core)) = 0
   \<and> m_ndots (configure [Attempts 5, Timeout (Real 0), Attempts 0, Interval (Real (- 5)),
       Maxcalls 0, Ndots 0, Capacity 0, Sockets 0, Buffersize 0] (clear example_core)) = 0
   \<and> m_timeout (configure [Attempts 5, Timeout (Real 0), Attempts 0, Interval (Real (- 5)),
       Maxcalls 0, Ndots 0, Capacity 0, Sockets 0, Buffersize 0] (clear example_core))
       = Real tenth
   \<and> at_least (1 / 10) (m_interval (configure [Attempts 5, Timeout (Real 0), Attempts 0,
       Interval (Real (- 5)), Maxcalls 0, Ndots 0, Capacity 0, Sockets 0, Buffersize 0]
       (clear example_core)))
   \<and> 0 < m_capacity (configure [Attempts 5, Timeout (Real 0), Attempts 0, Interval (Real (- 5)),
       Maxcalls 0, Ndots 0, Capacity 0, Sockets 0, Buffersize 0] (clear example_core))
   \<and> 0 < socket_count (m_ipv4 (configure [Attempts 5, Timeout (Real 0), Attempts 0,
       Interval (Real (- 5)), Maxcalls 0, Ndots 0, Capacity 0, Sockets 0, Buffersize 0]
       (clear example_core)))
   \<and> 0 < sint (m_buffersize (configure [Attempts 5, Timeout (Real 0), Attempts 0,
       Interval (Real (- 5)), Maxcalls 0, Ndots 0, Capacity 0, Sockets 0, Buffersize 0]
       (clear example_core)))"
  using settings_after_calls
    [of "[Attempts 5, Timeout (Real 0), Attempts 0, Interval (Real (- 5)),
          Maxcalls 0, Ndots 0, Capacity 0, Sockets 0, Buffersize 0]" "clear example_core"]
  by (simp add: std_max_def tenth_def del: configure_Cons)

text \<open>
  C10: each lookup that omits the bits is the lookup with explicit bits, called with the
  default bits of the context, for a name and for an address, for a handler object and
  for a pair of callbacks; after \<^verbatim>\<open>bits(b)\<close> the default is \<open>b\<close>.
\<close>

theorem default_bits_overloads:
  "query_handler q domain type h c = q domain type (m_bits c) h c
   \<and> query_ip_handler qi a h c = qi a (m_bits c) h c
   \<and> query_callbacks qc domain type success failure c
       = qc domain type (m_bits c) success failure c
   \<and> query_ip_callbacks qic a success failure c = qic a (m_bits c) success failure c
   \<and> query_handler q domain type h (bits_set b c) = q domain type b h (bits_set b c)
   \<and> query_ip_handler qi a h (bits_set b c) = qi a b h (bits_set b c)
   \<and> query_callbacks qc domain type success failure (bits_set b c)
       = qc domain type b success failure (bits_set b c)
   \<and> query_ip_callbacks qic a success failure (bits_set b c)
       = qic a b success failure (bits_set b c)"
  by (simp add: query_handler_def query_ip_handler_def query_callbacks_def
        query_ip_callbacks_def bits_set_def)

section \<open>Properties of the search path resolver\<close>





section \<open>Properties of the scheduler\<close>

subsection \<open>Settings and runs\<close>

lemma apply_setting_frame [simp]:
  fixes s :: sched
  shows "s_operations (apply_setting x s) = s_operations s"
    and "s_pending (apply_setting x s) = s_pending s"
    and "s_delivered (apply_setting x s) = s_delivered s"
    and "s_cancelled (apply_setting x s) = s_cancelled s"
    and "s_next (apply_setting x s) = s_next s"
    and "s_offset (apply_setting x s) = s_offset s"
    and "m_nameservers (apply_setting x s) = m_nameservers s"
    and "m_searchpaths (apply_setting x s) = m_searchpaths s"
    and "length (m_nameservers (apply_setting x s)) = length (m_nameservers s)"
  by (cases x; simp add: setting_defs)+

lemma run_Nil [simp]: "run V S L [] s = s"
  by (simp add: run_def)

lemma run_Cons [simp]: "run V S L (e # evs) s = run V S L evs (step V S L e s)"
  by (simp add: run_def)

lemma run_append [simp]: "run V S L (evs @ evs') s = run V S L evs' (run V S L evs s)"
  by (simp add: run_def)

subsection \<open>Invalid input\<close>

lemma query_invalid:
  "\<not> valid domain \<or> \<not> supported type \<or> m_nameservers s = [] \<Longrightarrow>
   query valid supported literal domain type b k s = (None, s)"
  by (auto simp: query_def candidates_def split: option.splits)

text \<open>
  C2: a lookup with a malformed name, an unsupported record type or an empty Nameserver
  Set returns no operation and leaves the scheduler as it was, for a handler object and
  for a pair of callbacks, with explicit or default bits: no operation is created, and
  whatever happens afterwards happens as if the call had not been made, so the Result
  Sink of the call is never invoked.
\<close>

theorem invalid_query_rejected:
  assumes "\<not> valid domain \<or> \<not> supported type \<or> m_nameservers s = []"
  shows "query valid supported literal domain type b k s = (None, s)
    \<and> query_handler (\<lambda>d t b h. query valid supported literal d t b (HandlerObject h)) domain type h s
        = (None, s)
    \<and> query_callbacks (\<lambda>d t b su fa. query valid supported literal d t b (CallbackPair su fa))
          domain type success failure s = (None, s)
    \<and> run valid supported literal evs (step valid supported literal (Submit domain type b k) s)
        = run valid supported literal evs s"
  using assms by (simp add: query_invalid query_handler_def query_callbacks_def)

theorem invalid_query_rejected_witness:
  "query example_valid example_supported example_literal [] 1 (Bits 0) (HandlerObject (Handler 7)) (start example_core)
     = (None, start example_core)
   \<and> query example_valid example_supported example_literal ''host'' 99 (Bits 0) (CallbackPair 3 4)
       (start example_core) = (None, start example_core)
   \<and> query example_valid example_supported example_literal ''host'' 1 (Bits 0) (HandlerObject (Handler 7))
       (start (clear example_core)) = (None, start (clear example_core))
   \<and> run example_valid example_supported example_literal [Timer 0, Pass]
       (step example_valid example_supported example_literal (Submit [] 1 (Bits 0) (HandlerObject (Handler 7)))
          (start example_core))
     = run example_valid example_supported example_literal [Timer 0, Pass] (start example_core)"
proof -
  have a: "\<not> example_valid []"
    by (simp add: example_valid_def)
  have b: "\<not> example_supported 99"
    by (simp add: example_supported_def)
  have c: "m_nameservers (start (clear example_core)) = []"
    by (simp add: start_def clear_def)
  show ?thesis
    using a b c
      invalid_query_rejected [of example_valid "[]" example_supported 1 "start example_core"
        example_literal "Bits 0" "HandlerObject (Handler 7)" "Handler 0" 0 0 "[Timer 0, Pass]"]
      invalid_query_rejected [of example_valid "''host''" example_supported 99
        "start example_core" example_literal "Bits 0" "CallbackPair 3 4" "Handler 0" 0 0 "[]"]
      invalid_query_rejected [of example_valid "''host''" example_supported 1
        "start (clear example_core)" example_literal "Bits 0" "HandlerObject (Handler 7)"
        "Handler 0" 0 0 "[]"]
    by blast
qed

subsection \<open>Bounded delivery\<close>

lemma promote_frame [simp]:
  "s_pending (promote s) = s_pending s" "s_delivered (promote s) = s_delivered s"
  "s_cancelled (promote s) = s_cancelled s" "s_next (promote s) = s_next s"
  "s_offset (promote s) = s_offset s"
  "m_maxcalls (promote s) = m_maxcalls s" "m_capacity (promote s) = m_capacity s"
  "m_nameservers (promote s) = m_nameservers s" "m_rotate (promote s) = m_rotate s"
  by (simp_all add: promote_def)

lemma finish_frame [simp]:
  "s_pending (finish h s) = s_pending s" "s_delivered (finish h s) = s_delivered s"
  "s_cancelled (finish h s) = s_cancelled s" "s_next (finish h s) = s_next s"
  "m_maxcalls (finish h s) = m_maxcalls s" "m_capacity (finish h s) = m_capacity s"
  "m_nameservers (finish h s) = m_nameservers s" "m_rotate (finish h s) = m_rotate s"
  by (simp_all add: finish_def)

lemma destroy_frame [simp]:
  "s_pending (destroy h s) = s_pending s" "s_delivered (destroy h s) = s_delivered s"
  "s_next (destroy h s) = s_next s" "s_offset (destroy h s) = s_offset s"
  "m_maxcalls (destroy h s) = m_maxcalls s" "m_capacity (destroy h s) = m_capacity s"
  "m_nameservers (destroy h s) = m_nameservers s" "m_rotate (destroy h s) = m_rotate s"
  by (simp_all add: destroy_def)

lemma on_waiting_frame [simp]:
  "s_delivered (on_waiting h f s) = s_delivered s"
  "s_cancelled (on_waiting h f s) = s_cancelled s"
  "s_next (on_waiting h f s) = s_next s" "s_offset (on_waiting h f s) = s_offset s"
  "m_maxcalls (on_waiting h f s) = m_maxcalls s" "m_capacity (on_waiting h f s) = m_capacity s"
  "m_nameservers (on_waiting h f s) = m_nameservers s"
  "m_rotate (on_waiting h f s) = m_rotate s"
  by (simp_all add: on_waiting_def split: option.splits prod.splits)

lemma cancel_frame [simp]:
  "s_next (cancel h s) = s_next s"
  "m_maxcalls (cancel h s) = m_maxcalls s" "m_capacity (cancel h s) = m_capacity s"
  "m_nameservers (cancel h s) = m_nameservers s" "m_rotate (cancel h s) = m_rotate s"
  by (simp_all add: cancel_def split: option.splits)

lemma query_frame [simp]:
  "s_cancelled (snd (query V S L d t b k s)) = s_cancelled s"
  "s_offset (snd (query V S L d t b k s)) = s_offset s"
  "m_maxcalls (snd (query V S L d t b k s)) = m_maxcalls s"
  "m_capacity (snd (query V S L d t b k s)) = m_capacity s"
  "m_nameservers (snd (query V S L d t b k s)) = m_nameservers s"
  "m_rotate (snd (query V S L d t b k s)) = m_rotate s"
  by (simp_all add: query_def Let_def split: option.splits)



lemma deliver_frame [simp]:
  "m_maxcalls (deliver k s) = m_maxcalls s" "m_capacity (deliver k s) = m_capacity s"
  "m_nameservers (deliver k s) = m_nameservers s" "s_next (deliver k s) = s_next s"
  "s_cancelled (deliver k s) = s_cancelled s"
  by (induction k arbitrary: s; simp split: list.splits)+



lemma cancel_completions [simp]:
  "s_delivered (cancel h s) = s_delivered s" "s_pending (cancel h s) = s_pending s"
  by (simp_all add: cancel_def destroy_def split: option.splits)

lemma query_completions [simp]:
  "s_delivered (snd (query V S L d t b k s)) = s_delivered s"
  "s_pending (snd (query V S L d t b k s)) = s_pending s"
  by (simp_all add: query_def Let_def split: option.splits)






subsection \<open>The requests of one operation\<close>

lemma candidates_nonempty:
  "candidates V L nd paths name k = Some names \<Longrightarrow> names \<noteq> []"
  by (auto simp: candidates_def split: if_splits)

lemma op_ok_create:
  "m_nameservers s \<noteq> [] \<Longrightarrow> names \<noteq> [] \<Longrightarrow>
   op_ok (length (m_nameservers s)) (create names t b k s)"
  by (simp add: op_ok_def create_def)

lemma op_ok_admit:
  "op_ok n w \<Longrightarrow> op_state w = Created \<Longrightarrow> op_ok n (admit n f k w)"
  by (auto simp: op_ok_def admit_def transmit_def)

lemma op_ok_admitted:
  "op_ok (length (m_nameservers s)) w \<Longrightarrow> op_state w = Created \<Longrightarrow>
   op_ok (length (m_nameservers s)) (admitted s w)"
  by (simp add: admitted_def op_ok_admit)

lemma op_ok_conclude:
  assumes "op_ok n w" "op_state w = Waiting"
  shows "op_ok n (fst (conclude out w))"
proof -
  let ?A = "unat (op_attempts w)"
  from assms have c: "op_candidate w < length (op_candidates w)" and t: "op_tried w < n"
    and m: "op_made w \<le> ?A"
    and l: "length (op_sent w) \<le> (op_candidate w * n + op_tried w) * ?A + op_made w"
    and n: "0 < n"
    by (simp_all add: op_ok_def)
  have "(op_candidate w * n + op_tried w) * ?A + op_made w
          \<le> (op_candidate w * n + op_tried w) * ?A + ?A"
    using m by simp
  also have "\<dots> = (op_candidate w * n + Suc (op_tried w)) * ?A"
    by (simp add: algebra_simps)
  also have "\<dots> \<le> (op_candidate w * n + n) * ?A"
    using t by (intro mult_le_mono1) simp
  also have "\<dots> = Suc (op_candidate w) * n * ?A"
    by (simp add: algebra_simps)
  also have "\<dots> \<le> length (op_candidates w) * n * ?A"
    using c by (intro mult_le_mono1) simp
  finally have "length (op_sent w) \<le> ?A * n * length (op_candidates w)"
    using l by (simp add: mult.commute mult.left_commute)
  with c n show ?thesis
    by (simp add: op_ok_def conclude_def)
qed

lemma op_ok_next_candidate:
  assumes "op_ok n w" "op_state w = Waiting"
  shows "op_ok n (fst (next_candidate n w))"
proof -
  let ?A = "unat (op_attempts w)"
  from assms have c: "op_candidate w < length (op_candidates w)" and t: "op_tried w < n"
    and m: "op_made w \<le> ?A"
    and l: "length (op_sent w) \<le> (op_candidate w * n + op_tried w) * ?A + op_made w"
    and n: "0 < n"
    by (simp_all add: op_ok_def)
  have l': "length (op_sent w) \<le> (op_candidate w * n + Suc (op_tried w)) * ?A"
    using l m by (simp add: algebra_simps)
  show ?thesis
  proof (cases "Suc (op_tried w) < n")
    case True
    with c n l' show ?thesis
      by (auto simp: op_ok_def next_candidate_def transmit_def)
  next
    case False
    with t have e: "Suc (op_tried w) = n" by simp
    have l'': "length (op_sent w) \<le> Suc (op_candidate w) * n * ?A"
      using l' e by (simp add: algebra_simps)
    show ?thesis
    proof (cases "Suc (op_candidate w) < length (op_candidates w)")
      case True
      with False n l'' show ?thesis
        by (auto simp: op_ok_def next_candidate_def transmit_def algebra_simps)
    next
      case False
      have "op_ok n (fst (conclude Failure w))"
        using assms by (rule op_ok_conclude)
      with False \<open>\<not> Suc (op_tried w) < n\<close> show ?thesis
        by (simp add: next_candidate_def conclude_def)
    qed
  qed
qed

lemma op_ok_retry:
  assumes "op_ok n w" "op_state w = Waiting"
  shows "op_ok n (fst (retry n w))"
proof (cases "op_made w < unat (op_attempts w)")
  case True
  with assms show ?thesis
    by (simp add: retry_def op_ok_def transmit_def)
next
  case False
  with op_ok_next_candidate [OF assms] show ?thesis
    by (simp add: retry_def)
qed

lemma op_ok_bound:
  assumes "op_ok n w"
  shows "length (op_sent w) \<le> unat (op_attempts w) * n * length (op_candidates w)"
proof (cases "op_state w = Waiting")
  case True
  from op_ok_conclude [OF assms True, of Failure] show ?thesis
    by (simp add: op_ok_def conclude_def)
next
  case False
  with assms show ?thesis
    by (auto simp: op_ok_def)
qed

subsection \<open>The invariant of the scheduler\<close>

text \<open>The three transitions of a waiting operation keep its handle and end in \<open>Waiting\<close> or \<open>Delivering\<close>.\<close>

lemma transmit_fields [simp]:
  "op_id (transmit n w) = op_id w" "op_state (transmit n w) = Waiting"
  "op_sink (transmit n w) = op_sink w" "op_candidates (transmit n w) = op_candidates w"
  "op_attempts (transmit n w) = op_attempts w" "op_capacity (transmit n w) = op_capacity w"
  "parameters (transmit n w) = parameters w"
  by (simp_all add: transmit_def parameters_def)

lemma admit_fields [simp]:
  "op_id (admit n f k w) = op_id w" "op_state (admit n f k w) = Waiting"
  "op_sink (admit n f k w) = op_sink w" "op_candidates (admit n f k w) = op_candidates w"
  "op_attempts (admit n f k w) = op_attempts w" "op_capacity (admit n f k w) = op_capacity w"
  "parameters (admit n f k w) = parameters w"
  by (simp_all add: admit_def parameters_def transmit_def)

lemma admitted_fields [simp]:
  "op_id (admitted s w) = op_id w" "op_state (admitted s w) = Waiting"
  "op_sink (admitted s w) = op_sink w" "op_candidates (admitted s w) = op_candidates w"
  "op_attempts (admitted s w) = op_attempts w" "op_capacity (admitted s w) = op_capacity w"
  "parameters (admitted s w) = parameters w"
  by (simp_all add: admitted_def)

lemma create_fields [simp]:
  "op_id (create names t b k s) = s_next s" "op_state (create names t b k s) = Created"
  "op_sink (create names t b k s) = k" "op_capacity (create names t b k s) = m_capacity s"
  "op_sent (create names t b k s) = []" "op_candidates (create names t b k s) = names"
  "op_attempts (create names t b k s) = m_attempts s"
  by (simp_all add: create_def)

text \<open>A lookup is rejected, or appends the operation it created, queued or admitted.\<close>

lemma query_cases:
  obtains (rejected) "query V S L d t b k s = (None, s)"
  | (accepted) names w where
      "candidates V L (unat (m_ndots s)) (m_searchpaths s) d k = Some names"
      "m_nameservers s \<noteq> []"
      "w = (if \<not> list_ex (\<lambda>x. op_state x = Created) (s_operations s)
               \<and> running_count s < unat (m_capacity s)
            then admitted s (create names t b k s) else create names t b k s)"
      "query V S L d t b k s =
         (Some (s_next s), s\<lparr>s_operations := s_operations s @ [w], s_next := Suc (s_next s)\<rparr>)"
proof (cases "candidates V L (unat (m_ndots s)) (m_searchpaths s) d k")
  case None
  then have "query V S L d t b k s = (None, s)"
    by (simp add: query_def)
  then show ?thesis by (rule rejected)
next
  case (Some names)
  show ?thesis
  proof (cases "\<not> S t \<or> m_nameservers s = []")
    case True
    with Some have "query V S L d t b k s = (None, s)"
      by (auto simp: query_def)
    then show ?thesis by (rule rejected)
  next
    case False
    then have n: "m_nameservers s \<noteq> []"
      by simp
    from Some False have "query V S L d t b k s =
         (Some (s_next s),
          s\<lparr>s_operations := s_operations s @
               [if \<not> list_ex (\<lambda>x. op_state x = Created) (s_operations s)
                    \<and> running_count s < unat (m_capacity s)
                 then admitted s (create names t b k s) else create names t b k s],
            s_next := Suc (s_next s)\<rparr>)"
      by (simp add: query_def Let_def)
    with Some n show ?thesis
      by (rule accepted [OF _ _ refl])
  qed
qed

lemma retry_facts:
  "op_id (fst (retry n w)) = op_id w
   \<and> op_state (fst (retry n w)) = (if snd (retry n w) = None then Waiting else Delivering)"
  by (simp add: retry_def next_candidate_def)

lemma next_candidate_facts:
  "op_id (fst (next_candidate n w)) = op_id w
   \<and> op_state (fst (next_candidate n w))
       = (if snd (next_candidate n w) = None then Waiting else Delivering)"
  by (simp add: next_candidate_def)

lemma conclude_facts:
  "op_id (fst (conclude out w)) = op_id w
   \<and> op_state (fst (conclude out w)) = (if snd (conclude out w) = None then Waiting else Delivering)"
  by (simp add: conclude_def)

lemma find_id:
  "find (\<lambda>w. op_id w = h) xs = Some w \<Longrightarrow> w \<in> set xs \<and> op_id w = h"
  by (induction xs) (auto split: if_splits)

lemma find_id_None:
  "find (\<lambda>w. op_id w = h) xs = None \<Longrightarrow> h \<notin> op_id ` set xs"
  by (induction xs) (auto split: if_splits)

lemma on_waiting_cases:
  obtains (idle) "on_waiting h f s = s"
  | (moved) w where "w \<in> set (s_operations s)" "op_id w = h" "op_state w = Waiting"
      "on_waiting h f s =
         s\<lparr>s_operations := map (\<lambda>x. if op_id x = h then fst (f w) else x) (s_operations s),
           s_pending := s_pending s @
             (case snd (f w) of None \<Rightarrow> [] | Some out \<Rightarrow> [(h, op_sink w, out)])\<rparr>"
proof (cases "find (\<lambda>w. op_id w = h) (s_operations s)")
  case None
  then have "on_waiting h f s = s"
    by (simp add: on_waiting_def)
  then show ?thesis by (rule idle)
next
  case (Some w)
  show ?thesis
  proof (cases "op_state w = Waiting")
    case True
    from find_id [OF Some] have a: "w \<in> set (s_operations s)" and b: "op_id w = h"
      by blast+
    have c: "on_waiting h f s =
         s\<lparr>s_operations := map (\<lambda>x. if op_id x = h then fst (f w) else x) (s_operations s),
           s_pending := s_pending s @
             (case snd (f w) of None \<Rightarrow> [] | Some out \<Rightarrow> [(h, op_sink w, out)])\<rparr>"
      using Some True by (simp add: on_waiting_def split: prod.splits)
    show ?thesis by (rule moved [OF a b True c])
  next
    case False
    with Some have "on_waiting h f s = s"
      by (simp add: on_waiting_def)
    then show ?thesis by (rule idle)
  qed
qed

lemma cancel_cases:
  obtains (idle) "cancel h s = s"
  | (unqueued) w where "w \<in> set (s_operations s)" "op_id w = h" "op_state w = Created"
      "cancel h s = destroy h s"
  | (freed) w where "w \<in> set (s_operations s)" "op_id w = h" "op_state w \<noteq> Delivering"
      "op_state w \<noteq> Created" "cancel h s = promote (destroy h s)"
proof (cases "find (\<lambda>w. op_id w = h) (s_operations s)")
  case None
  then have "cancel h s = s"
    by (simp add: cancel_def)
  then show ?thesis by (rule idle)
next
  case (Some w)
  from find_id [OF Some] have a: "w \<in> set (s_operations s)" and b: "op_id w = h"
    by blast+
  show ?thesis
  proof (cases "op_state w = Delivering")
    case True
    with Some have "cancel h s = s"
      by (simp add: cancel_def)
    then show ?thesis by (rule idle)
  next
    case False
    show ?thesis
    proof (cases "op_state w = Created")
      case True
      with Some have "cancel h s = destroy h s"
        by (simp add: cancel_def)
      with a b True show ?thesis by (rule unqueued)
    next
      case running: False
      with Some False have "cancel h s = promote (destroy h s)"
        by (simp add: cancel_def)
      with a b False running show ?thesis by (rule freed)
    qed
  qed
qed

lemma map_id_update:
  "op_id w' = h \<Longrightarrow> map op_id (map (\<lambda>x. if op_id x = h then w' else x) xs) = map op_id xs"
  by (induction xs) auto

lemma map_id_promote:
  "(\<And>x. op_id (f x) = op_id x) \<Longrightarrow> map op_id (admit_queue f n xs) = map op_id xs"
  by (induction xs arbitrary: n) auto

lemma promote_ids [simp]: "map op_id (s_operations (promote s)) = map op_id (s_operations s)"
  by (simp add: promote_def map_id_promote)

lemma set_map_id: "op_id ` set xs = set (map op_id xs)"
  by simp

text \<open>The handles stay in order.\<close>

lemma wf_ids_start: "wf_ids (start c)"
  by (simp add: wf_ids_def start_def)

lemma wf_ids_alt:
  "wf_ids s = (sorted_wrt (<) (map op_id (s_operations s))
     \<and> (\<forall>i\<in>set (map op_id (s_operations s)). i < s_next s))"
  by (simp add: wf_ids_def)

lemma wf_ids_same:
  assumes "wf_ids s" "map op_id (s_operations s') = map op_id (s_operations s)"
    "s_next s' = s_next s"
  shows "wf_ids s'"
  using assms by (auto simp only: wf_ids_alt)

lemma wf_ids_filter:
  assumes "wf_ids s" "s_operations s' = filter P (s_operations s)" "s_next s' = s_next s"
  shows "wf_ids s'"
  using assms by (simp add: wf_ids_def sorted_wrt_map sorted_wrt_filter)

lemma wf_ids_distinct: "wf_ids s \<Longrightarrow> distinct (map op_id (s_operations s))"
  by (simp add: wf_ids_def strict_sorted_iff)


lemma wf_ids_query: "wf_ids s \<Longrightarrow> wf_ids (snd (query V S L d t b k s))"
  by (cases V S L d t b k s rule: query_cases)
     (auto simp: wf_ids_def sorted_wrt_append less_Suc_eq)

lemma wf_ids_on_waiting:
  assumes "wf_ids s" "\<And>w. op_id (fst (f w)) = op_id w"
  shows "wf_ids (on_waiting h f s)"
proof (cases h f s rule: on_waiting_cases)
  case idle
  with assms show ?thesis by simp
next
  case (moved w)
  with assms show ?thesis
    by (intro wf_ids_same [OF assms(1)]) (simp_all add: map_id_update)
qed

lemma wf_ids_promote: "wf_ids s \<Longrightarrow> wf_ids (promote s)"
  by (rule wf_ids_same) simp_all

lemma wf_ids_destroy: "wf_ids s \<Longrightarrow> wf_ids (destroy h s)"
  by (rule wf_ids_filter) (simp_all add: destroy_def)

lemma wf_ids_cancel: "wf_ids s \<Longrightarrow> wf_ids (cancel h s)"
  by (cases h s rule: cancel_cases) (simp_all add: wf_ids_promote wf_ids_destroy)

lemma wf_ids_setting: "wf_ids s \<Longrightarrow> wf_ids (apply_setting x s)"
  by (simp add: wf_ids_def)

text \<open>The operations stay within their request budget.\<close>

lemma ops_ok_start: "ops_ok (start c)"
  by (simp add: ops_ok_def start_def)

lemma ops_ok_setting: "ops_ok s \<Longrightarrow> ops_ok (apply_setting x s)"
  by (simp add: ops_ok_def)

lemma ops_ok_query: "ops_ok s \<Longrightarrow> ops_ok (snd (query V S L d t b k s))"
proof (cases V S L d t b k s rule: query_cases)
  case rejected
  assume "ops_ok s"
  with rejected show ?thesis by simp
next
  case (accepted names w)
  assume "ops_ok s"
  moreover have "op_ok (length (m_nameservers s)) (create names t b k s)"
    using accepted(2) candidates_nonempty [OF accepted(1)] by (rule op_ok_create)
  then have "op_ok (length (m_nameservers s)) w"
    unfolding accepted(3) by (simp add: op_ok_admitted)
  ultimately show ?thesis
    using accepted(4) by (simp add: ops_ok_def)
qed

lemma ops_ok_on_waiting:
  assumes "ops_ok s"
    "\<And>w. op_ok (length (m_nameservers s)) w \<Longrightarrow> op_state w = Waiting \<Longrightarrow>
       op_ok (length (m_nameservers s)) (fst (f w))"
  shows "ops_ok (on_waiting h f s)"
proof (cases h f s rule: on_waiting_cases)
  case idle
  with assms show ?thesis by simp
next
  case (moved w)
  with assms have "op_ok (length (m_nameservers s)) (fst (f w))"
    by (simp add: ops_ok_def list_all_iff)
  with moved assms(1) show ?thesis
    by (auto simp: ops_ok_def list_all_iff)
qed

lemma list_all_promote:
  "list_all P xs \<Longrightarrow> (\<And>x. P x \<Longrightarrow> op_state x = Created \<Longrightarrow> P (f x)) \<Longrightarrow>
   list_all P (admit_queue f n xs)"
  by (induction xs arbitrary: n) auto

lemma ops_ok_promote: "ops_ok s \<Longrightarrow> ops_ok (promote s)"
  by (auto simp: ops_ok_def promote_def intro: list_all_promote op_ok_admitted)

lemma ops_ok_destroy: "ops_ok s \<Longrightarrow> ops_ok (destroy h s)"
  by (auto simp: ops_ok_def destroy_def list_all_iff)

lemma ops_ok_cancel: "ops_ok s \<Longrightarrow> ops_ok (cancel h s)"
  by (cases h s rule: cancel_cases) (simp_all add: ops_ok_promote ops_ok_destroy)

lemma ops_ok_finish: "ops_ok s \<Longrightarrow> ops_ok (finish h s)"
  by (auto simp: ops_ok_def finish_def list_all_iff)


text \<open>The Pending Result Queue stays in step with the operations that are \<open>Delivering\<close>.\<close>

lemma unique_id:
  "distinct (map op_id xs) \<Longrightarrow> w \<in> set xs \<Longrightarrow> x \<in> set xs \<Longrightarrow> op_id x = op_id w \<Longrightarrow> x = w"
  by (meson distinct_map inj_onD)

lemma wf_pending_start: "wf_pending (start c)"
  by (simp add: wf_pending_def start_def)

lemma wf_pending_setting: "wf_pending s \<Longrightarrow> wf_pending (apply_setting x s)"
  by (simp add: wf_pending_def)

lemma wf_pending_query: "wf_pending s \<Longrightarrow> wf_pending (snd (query V S L d t b k s))"
  by (cases V S L d t b k s rule: query_cases) (auto simp: wf_pending_def)

lemma promote_delivering:
  "(\<And>x. op_state (f x) \<noteq> Delivering) \<Longrightarrow>
   filter (\<lambda>x. op_state x = Delivering) (admit_queue f n xs)
     = filter (\<lambda>x. op_state x = Delivering) xs"
  by (induction xs arbitrary: n) auto

lemma set_delivering:
  "{x \<in> set xs. op_state x = Delivering} = set (filter (\<lambda>x. op_state x = Delivering) xs)"
  by simp

lemma wf_pending_promote: "wf_pending s \<Longrightarrow> wf_pending (promote s)"
  by (simp add: wf_pending_def promote_def set_delivering promote_delivering
        del: set_filter)

lemma wf_pending_destroy:
  assumes "wf_ids s" "wf_pending s" "w \<in> set (s_operations s)" "op_id w = h"
    "op_state w \<noteq> Delivering"
  shows "wf_pending (destroy h s)"
proof -
  have d: "distinct (map op_id (s_operations s))"
    using assms(1) by (rule wf_ids_distinct)
  have u: "\<And>x. x \<in> set (s_operations s) \<Longrightarrow> op_id x = h \<Longrightarrow> x = w"
    using unique_id [OF d assms(3)] assms(4) by simp
  have "{x \<in> set (s_operations s). op_id x \<noteq> h \<and> op_state x = Delivering}
          = {x \<in> set (s_operations s). op_state x = Delivering}"
    using u assms(5) by blast
  with assms(2) show ?thesis
    by (simp add: wf_pending_def destroy_def)
qed

lemma wf_pending_cancel:
  assumes "wf_ids s" "wf_pending s"
  shows "wf_pending (cancel h s)"
proof (cases h s rule: cancel_cases)
  case idle
  with assms show ?thesis by simp
next
  case (unqueued w)
  then have "op_state w \<noteq> Delivering"
    by simp
  with assms unqueued show ?thesis
    by (simp add: wf_pending_destroy)
next
  case (freed w)
  with assms show ?thesis
    by (simp add: wf_pending_promote wf_pending_destroy)
qed

lemma set_update_unique:
  assumes "w \<in> set xs" "\<And>x. x \<in> set xs \<Longrightarrow> op_id x = op_id w \<Longrightarrow> x = w"
  shows "set (map (\<lambda>x. if op_id x = op_id w then w' else x) xs) = insert w' (set xs - {w})"
proof -
  have "(\<lambda>x. if op_id x = op_id w then w' else x) ` set xs = insert w' (set xs - {w})"
  proof (rule set_eqI)
    fix y
    show "y \<in> (\<lambda>x. if op_id x = op_id w then w' else x) ` set xs
            \<longleftrightarrow> y \<in> insert w' (set xs - {w})"
      using assms by (auto simp: image_iff)
  qed
  then show ?thesis by simp
qed

lemma wf_pending_on_waiting:
  assumes "wf_ids s" "wf_pending s"
    "\<And>w. op_id (fst (f w)) = op_id w
       \<and> op_state (fst (f w)) = (if snd (f w) = None then Waiting else Delivering)"
  shows "wf_pending (on_waiting h f s)"
proof (cases h f s rule: on_waiting_cases)
  case idle
  with assms show ?thesis by simp
next
  case (moved w)
  have d: "distinct (map op_id (s_operations s))"
    using assms(1) by (rule wf_ids_distinct)
  let ?D = "{x \<in> set (s_operations s). op_state x = Delivering}"
  let ?xs = "map (\<lambda>x. if op_id x = h then fst (f w) else x) (s_operations s)"
  have u: "\<And>x. x \<in> set (s_operations s) \<Longrightarrow> op_id x = op_id w \<Longrightarrow> x = w"
    using unique_id [OF d moved(1)] by simp
  have h: "h \<notin> op_id ` ?D"
    using u moved(2,3) by auto
  have w: "w \<notin> ?D"
    using moved(3) by simp
  have S: "set ?xs = insert (fst (f w)) (set (s_operations s) - {w})"
    using set_update_unique [OF moved(1) u] moved(2) by simp
  show ?thesis
  proof (cases "snd (f w)")
    case None
    then have "op_state (fst (f w)) = Waiting"
      using assms(3) by simp
    then have "{x \<in> set ?xs. op_state x = Delivering} = ?D"
      unfolding S using w by auto
    with assms(2) moved(4) None show ?thesis
      by (simp add: wf_pending_def)
  next
    case (Some out)
    then have "op_state (fst (f w)) = Delivering" "op_id (fst (f w)) = h"
      using assms(3) moved(2) by simp_all
    then have "{x \<in> set ?xs. op_state x = Delivering} = insert (fst (f w)) ?D"
      unfolding S using w by auto
    then have "op_id ` {x \<in> set ?xs. op_state x = Delivering} = insert h (op_id ` ?D)"
      using \<open>op_id (fst (f w)) = h\<close> by simp
    with assms(2) moved(4) Some h show ?thesis
      by (simp add: wf_pending_def)
  qed
qed


text \<open>The history stays a partition of the handles given out.\<close>

lemma wf_history_alt:
  "wf_history s =
     (distinct (map fst (s_delivered s))
      \<and> set (map op_id (s_operations s)) \<inter> fst ` set (s_delivered s) = {}
      \<and> set (map op_id (s_operations s)) \<inter> set (s_cancelled s) = {}
      \<and> fst ` set (s_delivered s) \<inter> set (s_cancelled s) = {}
      \<and> set (map op_id (s_operations s)) \<union> fst ` set (s_delivered s) \<union> set (s_cancelled s)
          = {..<s_next s})"
  by (simp add: wf_history_def)

lemma wf_history_same:
  assumes "wf_history s" "map op_id (s_operations s') = map op_id (s_operations s)"
    "s_delivered s' = s_delivered s" "s_cancelled s' = s_cancelled s" "s_next s' = s_next s"
  shows "wf_history s'"
  using assms by (auto simp only: wf_history_alt)

lemma wf_history_start: "wf_history (start c)"
  by (simp add: wf_history_def start_def)

lemma wf_history_setting: "wf_history s \<Longrightarrow> wf_history (apply_setting x s)"
  by (simp add: wf_history_def)

lemma wf_history_query:
  assumes "wf_history s"
  shows "wf_history (snd (query V S L d t b k s))"
proof (cases V S L d t b k s rule: query_cases)
  case rejected
  with assms show ?thesis by simp
next
  case (accepted names w)
  have w: "op_id w = s_next s"
    by (simp add: accepted(3))
  let ?I = "op_id ` set (s_operations s)"
  let ?D = "fst ` set (s_delivered s)"
  let ?C = "set (s_cancelled s)"
  from assms have u: "?I \<union> ?D \<union> ?C = {..<s_next s}"
    and i: "?I \<inter> ?D = {}" "?I \<inter> ?C = {}" "?D \<inter> ?C = {}"
    and dd: "distinct (map fst (s_delivered s))"
    by (simp_all add: wf_history_def)
  from u have n: "s_next s \<notin> ?D" "s_next s \<notin> ?C"
    by auto
  have "insert (s_next s) ?I \<union> ?D \<union> ?C = {..<Suc (s_next s)}"
    using u by (auto simp: lessThan_Suc)
  with w i n dd show ?thesis
    by (simp add: wf_history_def accepted(4))
qed

lemma wf_history_on_waiting:
  assumes "wf_history s" "\<And>w. op_id (fst (f w)) = op_id w"
  shows "wf_history (on_waiting h f s)"
proof (cases h f s rule: on_waiting_cases)
  case idle
  with assms show ?thesis by simp
next
  case (moved w)
  with assms show ?thesis
    by (intro wf_history_same [OF assms(1)]) (simp_all add: map_id_update)
qed

lemma ids_filter: "op_id ` {x \<in> set xs. op_id x \<noteq> h} = op_id ` set xs - {h}"
  by auto

lemma wf_history_promote: "wf_history s \<Longrightarrow> wf_history (promote s)"
  by (rule wf_history_same) simp_all

lemma wf_history_destroy:
  assumes "wf_history s" "w \<in> set (s_operations s)" "op_id w = h"
  shows "wf_history (destroy h s)"
proof -
  let ?I = "op_id ` set (s_operations s)"
  let ?D = "fst ` set (s_delivered s)"
  let ?C = "set (s_cancelled s)"
  from assms have u: "?I \<union> ?D \<union> ?C = {..<s_next s}"
    and i: "?I \<inter> ?D = {}" "?I \<inter> ?C = {}" "?D \<inter> ?C = {}"
    and dd: "distinct (map fst (s_delivered s))"
    by (simp_all add: wf_history_def)
  from assms(2,3) have hI: "h \<in> ?I"
    by auto
  with i have hn: "h \<notin> ?D" "h \<notin> ?C"
    by auto
  have "(?I - {h}) \<union> ?D \<union> insert h ?C = {..<s_next s}"
    using u hI by auto
  moreover have "(?I - {h}) \<inter> ?D = {}" "(?I - {h}) \<inter> insert h ?C = {}"
    "?D \<inter> insert h ?C = {}"
    using i hn by auto
  ultimately show ?thesis
    using dd by (simp add: wf_history_def destroy_def ids_filter Un_commute)
qed

lemma wf_history_cancel:
  assumes "wf_history s"
  shows "wf_history (cancel h s)"
proof (cases h s rule: cancel_cases)
  case idle
  with assms show ?thesis by simp
next
  case (unqueued w)
  with assms show ?thesis
    by (simp add: wf_history_destroy)
next
  case (freed w)
  with assms show ?thesis
    by (simp add: wf_history_promote wf_history_destroy)
qed


text \<open>Delivery, steps and runs keep the invariant.\<close>

lemma invariant_promote: "invariant s \<Longrightarrow> invariant (promote s)"
  by (simp add: invariant_def wf_ids_promote ops_ok_promote wf_pending_promote
        wf_history_promote)

lemma invariant_delivered:
  assumes "invariant s" "s_pending s = r # rest"
  shows "invariant (finish (fst r) (s\<lparr>s_pending := rest, s_delivered := s_delivered s @ [r]\<rparr>))"
proof -
  let ?h = "fst r"
  let ?s1 = "s\<lparr>s_pending := rest, s_delivered := s_delivered s @ [r]\<rparr>"
  let ?I = "op_id ` set (s_operations s)"
  let ?D = "fst ` set (s_delivered s)"
  let ?C = "set (s_cancelled s)"
  let ?L = "op_id ` {x \<in> set (s_operations s). op_state x = Delivering}"
  from assms(1) have ids: "wf_ids s" and ok: "ops_ok s" and pe: "wf_pending s"
    and hi: "wf_history s"
    by (simp_all add: invariant_def)
  from pe assms(2) have dp: "?h \<notin> fst ` set rest" "distinct (map fst rest)"
    and L: "insert ?h (fst ` set rest) = ?L"
    by (simp_all add: wf_pending_def)
  from hi have u: "?I \<union> ?D \<union> ?C = {..<s_next s}"
    and i: "?I \<inter> ?D = {}" "?I \<inter> ?C = {}" "?D \<inter> ?C = {}"
    and dd: "distinct (map fst (s_delivered s))"
    by (simp_all add: wf_history_def)
  have hI: "?h \<in> ?I"
    using L by auto
  with i have hn: "?h \<notin> ?D" "?h \<notin> ?C"
    by auto
  have 1: "wf_ids (finish ?h ?s1)"
    by (rule wf_ids_filter [OF ids]) (simp_all add: finish_def)
  have "ops_ok ?s1"
    using ok by (simp add: ops_ok_def)
  then have 2: "ops_ok (finish ?h ?s1)"
    by (rule ops_ok_finish)
  have "op_id ` {x \<in> set (s_operations s). op_id x \<noteq> ?h \<and> op_state x = Delivering}
          = ?L - {?h}"
    by auto
  also have "\<dots> = fst ` set rest"
    using dp(1) by (simp add: L [symmetric])
  finally have 3: "wf_pending (finish ?h ?s1)"
    using dp(2) by (simp add: wf_pending_def finish_def)
  have "(?I - {?h}) \<union> insert ?h ?D \<union> ?C = {..<s_next s}"
    using u hI by auto
  moreover have "(?I - {?h}) \<inter> insert ?h ?D = {}" "(?I - {?h}) \<inter> ?C = {}"
    "insert ?h ?D \<inter> ?C = {}"
    using i hn by auto
  ultimately have 4: "wf_history (finish ?h ?s1)"
    using dd hn(1) by (simp add: wf_history_def finish_def ids_filter)
  from 1 2 3 4 show ?thesis
    by (simp add: invariant_def)
qed

lemma invariant_deliver: "invariant s \<Longrightarrow> invariant (deliver k s)"
proof (induction k arbitrary: s)
  case 0
  then show ?case by simp
next
  case (Suc k)
  show ?case
  proof (cases "s_pending s")
    case Nil
    with Suc.prems show ?thesis by simp
  next
    case (Cons r rest)
    have "invariant (promote (finish (fst r)
            (s\<lparr>s_pending := rest, s_delivered := s_delivered s @ [r]\<rparr>)))"
      by (intro invariant_promote invariant_delivered Suc.prems Cons)
    then show ?thesis
      using Cons by (simp add: Suc.IH)
  qed
qed

lemma invariant_start: "invariant (start c)"
  by (simp add: invariant_def wf_ids_start ops_ok_start wf_pending_start wf_history_start)

lemma invariant_on_waiting:
  assumes "invariant s"
    "\<And>w. op_id (fst (f w)) = op_id w
       \<and> op_state (fst (f w)) = (if snd (f w) = None then Waiting else Delivering)"
    "\<And>w. op_ok (length (m_nameservers s)) w \<Longrightarrow> op_state w = Waiting \<Longrightarrow>
       op_ok (length (m_nameservers s)) (fst (f w))"
  shows "invariant (on_waiting h f s)"
  using assms
  by (simp add: invariant_def wf_ids_on_waiting ops_ok_on_waiting wf_pending_on_waiting
        wf_history_on_waiting)

lemma invariant_step: "invariant s \<Longrightarrow> invariant (step V S L e s)"
proof (cases e)
  case (Submit d t b k)
  assume "invariant s"
  with Submit show ?thesis
    by (simp add: invariant_def wf_ids_query ops_ok_query wf_pending_query wf_history_query)
next
  case (Cancel h)
  assume "invariant s"
  with Cancel show ?thesis
    by (simp add: invariant_def wf_ids_cancel ops_ok_cancel wf_pending_cancel wf_history_cancel)
next
  case (Timer h)
  assume "invariant s"
  then have "invariant (on_waiting h (retry (length (m_nameservers s))) s)"
    by (rule invariant_on_waiting) (simp_all add: retry_facts op_ok_retry)
  with Timer show ?thesis by simp
next
  case (Response h out)
  assume "invariant s"
  then have "invariant (on_waiting h (conclude out) s)"
    by (rule invariant_on_waiting) (simp_all add: conclude_facts op_ok_conclude)
  with Response show ?thesis by simp
next
  case (Malformed h)
  assume "invariant s"
  with Malformed show ?thesis by simp
next
  case (Unreachable h)
  assume "invariant s"
  then have "invariant (on_waiting h (next_candidate (length (m_nameservers s))) s)"
    by (rule invariant_on_waiting) (simp_all add: next_candidate_facts op_ok_next_candidate)
  with Unreachable show ?thesis by simp
next
  case Pass
  assume "invariant s"
  with Pass show ?thesis
    by (simp add: pass_def invariant_deliver)
next
  case (Configure x)
  assume "invariant s"
  with Configure show ?thesis
    by (simp add: invariant_def wf_ids_setting ops_ok_setting wf_pending_setting
          wf_history_setting)
qed

lemma invariant_run: "invariant s \<Longrightarrow> invariant (run V S L evs s)"
  by (induction evs arbitrary: s) (simp_all add: invariant_step)

lemma invariant_reachable: "invariant (run V S L evs (start c))"
  by (rule invariant_run [OF invariant_start])

subsection \<open>The bound on requests\<close>

lemma step_nameservers [simp]: "m_nameservers (step V S L e s) = m_nameservers s"
  by (cases e) (simp_all add: pass_def)

lemma run_nameservers [simp]: "m_nameservers (run V S L evs s) = m_nameservers s"
  by (induction evs arbitrary: s) simp_all

lemma start_nameservers [simp]: "m_nameservers (start c) = m_nameservers c"
  by (simp add: start_def)

text \<open>
  C6: the requests an operation has sent never exceed
  \<open>attempts * nameservers * candidates\<close>. With \<open>attempts = 3\<close>, one nameserver and one
  candidate, an operation that is never answered has sent exactly three requests when its
  timer has fired twice, sends no more when it fires again, and then has a failure queued,
  which the next pass delivers.
\<close>

theorem requests_bounded:
  "(w \<in> set (s_operations (run V S L evs (start c))) \<longrightarrow>
      length (op_sent w)
        \<le> unat (op_attempts w) * length (m_nameservers c) * length (op_candidates w))
   \<and> map op_sent (s_operations (run example_valid example_supported example_literal (unanswered 2)
         (start example_single))) = [[(''host'', 0), (''host'', 0), (''host'', 0)]]
   \<and> s_pending (run example_valid example_supported example_literal (unanswered 2) (start example_single)) = []
   \<and> map op_sent (s_operations (run example_valid example_supported example_literal (unanswered 3)
         (start example_single))) = [[(''host'', 0), (''host'', 0), (''host'', 0)]]
   \<and> s_pending (run example_valid example_supported example_literal (unanswered 3) (start example_single))
       = [(0, HandlerObject (Handler 7), Failure)]
   \<and> s_delivered (run example_valid example_supported example_literal (unanswered 3 @ [Pass])
         (start example_single)) = [(0, HandlerObject (Handler 7), Failure)]
   \<and> s_operations (run example_valid example_supported example_literal (unanswered 3 @ [Pass])
         (start example_single)) = []"
proof -
  have "length (op_sent w)
        \<le> unat (op_attempts w) * length (m_nameservers c) * length (op_candidates w)"
    if "w \<in> set (s_operations (run V S L evs (start c)))"
  proof -
    have "ops_ok (run V S L evs (start c))"
      using invariant_reachable [of V S L evs c] by (simp add: invariant_def)
    with that have "op_ok (length (m_nameservers c)) w"
      by (simp add: ops_ok_def list_all_iff)
    then show ?thesis by (rule op_ok_bound)
  qed
  moreover have
    "map op_sent (s_operations (run example_valid example_supported example_literal (unanswered 2)
         (start example_single))) = [[(''host'', 0), (''host'', 0), (''host'', 0)]]"
    "s_pending (run example_valid example_supported example_literal (unanswered 2) (start example_single)) = []"
    "map op_sent (s_operations (run example_valid example_supported example_literal (unanswered 3)
         (start example_single))) = [[(''host'', 0), (''host'', 0), (''host'', 0)]]"
    "s_pending (run example_valid example_supported example_literal (unanswered 3) (start example_single))
       = [(0, HandlerObject (Handler 7), Failure)]"
    "s_delivered (run example_valid example_supported example_literal (unanswered 3 @ [Pass])
         (start example_single)) = [(0, HandlerObject (Handler 7), Failure)]"
    "s_operations (run example_valid example_supported example_literal (unanswered 3 @ [Pass])
         (start example_single)) = []"
    by code_simp+
  ultimately show ?thesis by blast
qed

theorem requests_bounded_witness:
  "length (op_sent (hd (s_operations (run example_valid example_supported example_literal (unanswered 2)
      (start example_core))))) = 3
   \<and> length (op_sent (hd (s_operations (run example_valid example_supported example_literal (unanswered 2)
      (start example_core)))))
      \<le> unat (op_attempts (hd (s_operations (run example_valid example_supported example_literal
            (unanswered 2) (start example_core)))))
          * length (m_nameservers example_core)
          * length (op_candidates (hd (s_operations (run example_valid example_supported example_literal
              (unanswered 2) (start example_core)))))
   \<and> op_sent (hd (s_operations (run example_valid example_supported example_literal (unanswered 1)
      (start (attempts 0 example_core))))) = []"
proof -
  let ?s = "run example_valid example_supported example_literal (unanswered 2) (start example_core)"
  let ?z = "run example_valid example_supported example_literal (unanswered 1) (start (attempts 0 example_core))"
  have "s_operations ?s \<noteq> []"
    by code_simp
  then have a: "hd (s_operations ?s) \<in> set (s_operations ?s)"
    by simp
  have b: "length (op_sent (hd (s_operations ?s))) = 3"
    by code_simp
  have "s_operations ?z \<noteq> []"
    by code_simp
  then have c: "hd (s_operations ?z) \<in> set (s_operations ?z)"
    by simp
  have "unat (op_attempts (hd (s_operations ?z))) = 0"
    by code_simp
  with c requests_bounded [of "hd (s_operations ?z)" example_valid example_supported example_literal
        "unanswered 1" "attempts 0 example_core"]
  have d: "op_sent (hd (s_operations ?z)) = []"
    by simp
  from a b d show ?thesis
    using requests_bounded [of "hd (s_operations ?s)" example_valid example_supported example_literal
        "unanswered 2" example_core]
    by blast
qed


end
